theory Spec2Isabelle
  imports Main "HOL-Library.Word" "HOL-Library.Signed_Division"
begin

unbundle bit_operations_syntax

section \<open>Transaction tracking: the completion-context tag\<close>

text \<open>
  \<^verbatim>\<open>comm-ofi.c\<close>, lines 522-561.  The context pointer handed to the fabric is a
  64-bit word; \<^verbatim>\<open>txnTrkType_t\<close> is the enum \<^verbatim>\<open>{txnTrkId, txnTrkDone, txnTrkTypeCount}\<close>
  with values 0, 1, 2.
\<close>

datatype txnTrkType_t = txnTrkId | txnTrkDone

text \<open>The value of an enumerator, as the cast \<^verbatim>\<open>(uint64_t) typ\<close> reads it.\<close>

fun txnTrkType_val :: "txnTrkType_t \<Rightarrow> 64 word" where
  "txnTrkType_val txnTrkId = 0"
| "txnTrkType_val txnTrkDone = 1"

definition txnTrkTypeCount :: "64 word" where
  "txnTrkTypeCount = 2"

text \<open>
  Storing a masked word into the \<^verbatim>\<open>typ\<close> field of \<^verbatim>\<open>txnTrkCtx_t\<close>: after the mask
  with \<^verbatim>\<open>TXNTRK_TYPE_MASK\<close> the word is 0 or 1.
\<close>

definition txnTrkType_of :: "64 word \<Rightarrow> txnTrkType_t" where
  "txnTrkType_of w = (if w = 0 then txnTrkId else txnTrkDone)"

definition TXNTRK_TYPE_BITS :: nat where
  "TXNTRK_TYPE_BITS = 1"

definition TXNTRK_ADDR_BITS :: nat where
  "TXNTRK_ADDR_BITS = 64 - TXNTRK_TYPE_BITS"

definition TXNTRK_TYPE_MASK :: "64 word" where
  "TXNTRK_TYPE_MASK = push_bit TXNTRK_TYPE_BITS 1 - 1"

definition TXNTRK_ADDR_MASK :: "64 word" where
  "TXNTRK_ADDR_MASK = NOT (push_bit TXNTRK_ADDR_BITS TXNTRK_TYPE_MASK)"

text \<open>The fields \<^verbatim>\<open>typ\<close> and \<^verbatim>\<open>ptr\<close> of \<^verbatim>\<open>txnTrkCtx_t\<close>.\<close>

record txnTrkCtx_t =
  trk_typ :: txnTrkType_t
  trk_ptr :: "64 word"

text \<open>
  \<^verbatim>\<open>txnTrkEncode\<close>: the two \<^verbatim>\<open>assert\<close>s are branches of the model; \<open>None\<close> is the
  failed assertion.
\<close>

definition txnTrkEncode :: "txnTrkType_t \<Rightarrow> 64 word \<Rightarrow> 64 word option" where
  "txnTrkEncode t p =
     (if (txnTrkTypeCount - 1) AND NOT TXNTRK_TYPE_MASK \<noteq> 0 then None
      else if p AND NOT TXNTRK_ADDR_MASK \<noteq> 0 then None
      else Some (push_bit TXNTRK_ADDR_BITS (txnTrkType_val t) OR (p AND TXNTRK_ADDR_MASK)))"

definition txnTrkEncodeId :: "64 word \<Rightarrow> 64 word option" where
  "txnTrkEncodeId ident = txnTrkEncode txnTrkId ident"

definition txnTrkEncodeDone :: "64 word \<Rightarrow> 64 word option" where
  "txnTrkEncodeDone pDone = txnTrkEncode txnTrkDone pDone"

definition txnTrkDecode :: "64 word \<Rightarrow> txnTrkCtx_t" where
  "txnTrkDecode u =
     \<lparr> trk_typ = txnTrkType_of (drop_bit TXNTRK_ADDR_BITS u AND TXNTRK_TYPE_MASK),
       trk_ptr = u AND TXNTRK_ADDR_MASK \<rparr>"

section \<open>Outcomes of a call\<close>

text \<open>
  A call returns (\<open>Ret\<close>), kills the program (\<open>Abort\<close>: a failed \<^verbatim>\<open>CHK_TRUE\<close> or
  \<^verbatim>\<open>CHK_FALSE\<close>, an \<^verbatim>\<open>INTERNAL_ERROR_V\<close>), or is still looping when the fuel given to
  the model is used up (\<open>OutOfFuel\<close>).  Fuel bounds the loops that the source does not
  bound itself: the rescans of \<^verbatim>\<open>findFreeTciTabEntry\<close>, the chunk loops, the waits for
  room in a completion queue.

  Modelled from the spec: the macros \<^verbatim>\<open>CHK_TRUE\<close>, \<^verbatim>\<open>CHK_FALSE\<close> and
  \<^verbatim>\<open>INTERNAL_ERROR_V\<close> are defined in a header that is not part of the sources at hand;
  following section 7 of the specification, a guard that fails aborts the process.
\<close>

datatype 'a outcome = Ret 'a | Abort | OutOfFuel

definition obind :: "'a outcome \<Rightarrow> ('a \<Rightarrow> 'b outcome) \<Rightarrow> 'b outcome" where
  "obind m f = (case m of Ret x \<Rightarrow> f x | Abort \<Rightarrow> Abort | OutOfFuel \<Rightarrow> OutOfFuel)"

definition CHK_TRUE :: "bool \<Rightarrow> 'a outcome \<Rightarrow> 'a outcome" where
  "CHK_TRUE c k = (if c then k else Abort)"

definition CHK_FALSE :: "bool \<Rightarrow> 'a outcome \<Rightarrow> 'a outcome" where
  "CHK_FALSE c k = (if c then Abort else k)"

section \<open>Bitmaps\<close>

text \<open>
  \<^verbatim>\<open>comm-ofi.c\<close>, lines 584-676.  \<^verbatim>\<open>struct bitmap_t\<close> is a length and an array of
  64-bit elements.  An index beyond the array is undefined behaviour in C; here a list
  update out of range changes nothing, and the theorems below keep indices in range.
\<close>

record bitmap_t =
  bm_len :: nat
  bm_map :: "64 word list"

definition bitmapElemWidth :: nat where
  "bitmapElemWidth = 64"

definition bitmapElemIdx :: "nat \<Rightarrow> nat" where
  "bitmapElemIdx i = i div bitmapElemWidth"

definition bitmapOff :: "nat \<Rightarrow> nat" where
  "bitmapOff i = i mod bitmapElemWidth"

text \<open>
  \<^verbatim>\<open>(((ssize_t) len) - 1) / bitmapElemWidth + 1\<close>: the division is C's, on a signed
  value, and truncates towards zero.
\<close>

definition bitmapNumElems :: "nat \<Rightarrow> nat" where
  "bitmapNumElems n = nat ((int n - 1) sdiv int bitmapElemWidth + 1)"

definition bitmapElemBit :: "nat \<Rightarrow> 64 word" where
  "bitmapElemBit i = push_bit (bitmapOff i) 1"

definition bitmapClear :: "bitmap_t \<Rightarrow> nat \<Rightarrow> bitmap_t" where
  "bitmapClear b i =
     b\<lparr> bm_map := (bm_map b)[bitmapElemIdx i :=
                     (bm_map b ! bitmapElemIdx i) AND NOT (bitmapElemBit i)] \<rparr>"

definition bitmapSet :: "bitmap_t \<Rightarrow> nat \<Rightarrow> bitmap_t" where
  "bitmapSet b i =
     b\<lparr> bm_map := (bm_map b)[bitmapElemIdx i :=
                     (bm_map b ! bitmapElemIdx i) OR bitmapElemBit i] \<rparr>"

definition bitmapTest :: "bitmap_t \<Rightarrow> nat \<Rightarrow> bool" where
  "bitmapTest b i = ((bm_map b ! bitmapElemIdx i) AND bitmapElemBit i \<noteq> 0)"

text \<open>\<^verbatim>\<open>bitmapAlloc\<close> uses \<^verbatim>\<open>CHPL_CALLOC_SZ\<close>: the elements start at zero.\<close>

definition bitmapAlloc :: "nat \<Rightarrow> bitmap_t" where
  "bitmapAlloc n = \<lparr> bm_len = n, bm_map = replicate (bitmapNumElems n) 0 \<rparr>"

section \<open>Memory regions\<close>

text \<open>
  \<^verbatim>\<open>comm-ofi.c\<close>, lines 176-187 and 2500-2574.  An address is a natural number and
  \<^verbatim>\<open>NULL\<close> is 0.  A table holds the first \<^verbatim>\<open>numMemRegions\<close> entries of a \<^verbatim>\<open>memTab_t\<close>.
\<close>

type_synonym ptr = nat

definition NULL :: ptr where
  "NULL = 0"

record memEntry =
  me_addr :: ptr
  me_base :: nat
  me_size :: nat
  me_desc :: ptr
  me_key :: "64 word"

definition getMemEntry :: "memEntry list \<Rightarrow> ptr \<Rightarrow> nat \<Rightarrow> memEntry option" where
  "getMemEntry tab a n =
     find (\<lambda>e. me_addr e \<le> a \<and> a + n \<le> me_addr e + me_size e) tab"

section \<open>Transmit contexts, task data, events\<close>

text \<open>
  \<^verbatim>\<open>struct perTxCtxInfo_t\<close> (lines 146-159).  \<open>txCQ\<close> says whether the pointer
  \<^verbatim>\<open>txCQ\<close> is non-null; the counters are \<^verbatim>\<open>uint64_t\<close>.
\<close>

record perTxCtxInfo_t =
  allocated :: bool
  bound :: bool
  txCQ :: bool
  numTxnsOut :: "64 word"
  numTxnsSent :: "64 word"

type_synonym tciTab_t = "nat \<Rightarrow> perTxCtxInfo_t"

text \<open>
  Modelled from the spec: \<^verbatim>\<open>chpl_comm_taskPrvData_t\<close> is declared in a header that is
  not part of the sources at hand.  Section 3 of the specification lists its fields: the
  optional bitmap of peers with PUTs not yet forced visible, the pending flag and the
  done byte of a delayed blocking AM, and the task-is-ending flag.
\<close>

record chpl_comm_taskPrvData_t =
  putBitmap :: "bitmap_t option"
  amDonePending :: bool
  taskIsEnding :: bool

datatype amOp_t =
  am_opExecOn | am_opExecOnLrg | am_opGet | am_opPut | am_opAMO | am_opFree
  | am_opNop | am_opShutdown

text \<open>
  Modelled from the spec: \<^verbatim>\<open>enum fi_op\<close> and \<^verbatim>\<open>enum fi_datatype\<close> belong to the fabric
  library's headers.  Section 4.4 of the specification lists the operations and types in
  use; \<open>FI_OTHER_OP\<close> and \<open>FI_OTHER_TYPE\<close> stand for every other enumerator.
\<close>

datatype fi_op =
  FI_SUM | FI_BOR | FI_BAND | FI_BXOR | FI_ATOMIC_READ | FI_ATOMIC_WRITE | FI_CSWAP
  | FI_OTHER_OP

datatype fi_datatype =
  FI_INT32 | FI_UINT32 | FI_INT64 | FI_UINT64 | FI_FLOAT | FI_DOUBLE | FI_OTHER_TYPE

text \<open>
  \<^verbatim>\<open>amRequest_t\<close> is a union whose members all start with the base part \<^verbatim>\<open>b\<close>
  (lines 2670-2744).  The payload is the member in use: an RMA request carries the
  address on the target, the address on the initiator and the size; an AMO request the
  operation, the type, the size, the object and the result address.  \<open>b_pAmDone\<close> is
  \<^verbatim>\<open>b.pAmDone\<close>: nothing for \<^verbatim>\<open>NULL\<close>, else the address of a done flag.
\<close>

datatype am_payload =
    Payload_none
  | Payload_rma ptr ptr nat
  | Payload_amo fi_op fi_datatype nat ptr ptr
  | Payload_free ptr
  | Payload_execOn nat

record amRequest_t =
  b_op :: amOp_t
  b_node :: nat
  b_pAmDone :: "ptr option"
  req_payload :: am_payload

text \<open>
  \<^verbatim>\<open>req->amo.ofiOp\<close>.  The code reads it only after it has seen \<^verbatim>\<open>am_opAMO\<close> in
  \<^verbatim>\<open>b.op\<close>; for another member of the union the bytes read are no operation at all.
\<close>

definition amo_ofiOp :: "amRequest_t \<Rightarrow> fi_op" where
  "amo_ofiOp req =
     (case req_payload req of Payload_amo ofiOp ofiType sz obj res \<Rightarrow> ofiOp | _ \<Rightarrow> FI_OTHER_OP)"

text \<open>
  The context pointer given to the fabric with an operation: \<^verbatim>\<open>NULL\<close>, the encoded
  address of a local \<^verbatim>\<open>txnDone\<close> flag, or an encoded id.
\<close>

datatype txn_ctx = Ctx_NULL | Ctx_Done | Ctx_Id

text \<open>
  What a call does to the world outside the tables: fabric operations with the
  transmit context they go out on, waits, yields, and local memory copies.
  \<open>Fi_amo\<close> stands for the three atomic verbs of \<^verbatim>\<open>ofi_amo\<close>.
\<close>

datatype event =
    Fi_write nat ptr nat nat "64 word" "64 word" txn_ctx
  | Fi_inject_write nat ptr nat nat "64 word" "64 word"
  | Fi_read nat ptr nat nat "64 word" "64 word" txn_ctx
  | Fi_send nat amRequest_t nat nat
  | Fi_inject nat amRequest_t nat nat
  | Fi_amo nat nat "64 word" "64 word" fi_op fi_datatype nat
  | WaitForTxnComplete nat txn_ctx
  | AmWaitForDone ptr
  | Local_yield
  | Sched_yield
  | Memmove ptr ptr nat
  | Memcpy ptr ptr nat
  | FreeBounceBuf ptr
  | Cpu_amo ptr fi_op fi_datatype nat

definition is_fabric_op :: "event \<Rightarrow> bool" where
  "is_fabric_op e =
     (case e of
        Fi_write _ _ _ _ _ _ _ \<Rightarrow> True
      | Fi_inject_write _ _ _ _ _ _ \<Rightarrow> True
      | Fi_read _ _ _ _ _ _ _ \<Rightarrow> True
      | Fi_send _ _ _ _ \<Rightarrow> True
      | Fi_inject _ _ _ _ \<Rightarrow> True
      | Fi_amo _ _ _ _ _ _ _ \<Rightarrow> True
      | _ \<Rightarrow> False)"

definition is_memory_write :: "event \<Rightarrow> bool" where
  "is_memory_write e =
     (case e of
        Memmove _ _ _ \<Rightarrow> True
      | Memcpy _ _ _ \<Rightarrow> True
      | Cpu_amo _ _ _ _ \<Rightarrow> True
      | _ \<Rightarrow> False)"

text \<open>
  The state one thread works on: the shared table \<^verbatim>\<open>tciTab\<close>, its thread-local
  \<^verbatim>\<open>_ttcip\<close> (an index into the table, or nothing for \<^verbatim>\<open>NULL\<close>), the private data of
  the running task as \<^verbatim>\<open>get_comm_taskPrvdata()\<close> finds it, the number of interactions
  with the environment so far, and the events so far.
\<close>

record comm_state =
  tciTab :: tciTab_t
  ttcip :: "nat option"
  prvData :: "chpl_comm_taskPrvData_t option"
  clock :: nat
  trace :: "event list"

text \<open>
  The configuration fixed at initialisation, and the environment.  \<open>others k\<close> is what
  the other threads do to \<^verbatim>\<open>tciTab\<close> just before this thread's \<open>k\<close>-th access to a
  shared flag; \<open>cqEvents k\<close> is the number of completion events that the checks made
  during the \<open>k\<close>-th wait read from the transmit queue; \<open>allocBounceBuf\<close> and
  \<open>amDone_addr\<close> stand for the allocator and for the address of the local variable
  \<^verbatim>\<open>amDone\<close>; \<open>prv_amDone_addr\<close> is the address of the task's own done byte and
  \<open>req_addr\<close> that of a request built on the stack; \<open>sizeof_req_rma\<close> and
  \<open>sizeof_req_amo\<close> are \<^verbatim>\<open>sizeof(req.rma)\<close> and \<^verbatim>\<open>sizeof(req.amo)\<close>;
  \<open>validByType\<close> is the table that \<^verbatim>\<open>isAtomicValid\<close> fills once from the provider's
  answers.
\<close>

record comm_cfg =
  haveDeliveryComplete :: bool
  max_msg_size :: nat
  inject_size :: nat
  chpl_nodeID :: nat
  chpl_numNodes :: nat
  tciTabLen :: nat
  numAmHandlers :: nat
  tciTabFixedAssignments :: bool
  isFixedThread :: bool
  txCQLen :: nat
  scalableMemReg :: bool
  memTab :: "memEntry list"
  memTabMap :: "nat \<Rightarrow> memEntry list"
  orderDummy :: ptr
  orderDummyMap :: "nat \<Rightarrow> ptr"
  validByType :: "fi_datatype \<Rightarrow> bool"
  others :: "nat \<Rightarrow> tciTab_t \<Rightarrow> tciTab_t"
  cqEvents :: "nat \<Rightarrow> 64 word"
  allocBounceBuf :: "nat \<Rightarrow> ptr"
  amDone_addr :: ptr
  prv_amDone_addr :: ptr
  req_addr :: ptr
  sizeof_req_rma :: nat
  sizeof_req_amo :: nat

definition emit :: "event list \<Rightarrow> comm_state \<Rightarrow> comm_state" where
  "emit es st = st\<lparr> trace := trace st @ es \<rparr>"

subsection \<open>Memory-region lookups\<close>

text \<open>The result \<open>Some\<close> is the return value 0, \<open>None\<close> is -1.\<close>

definition mrGetDesc :: "comm_cfg \<Rightarrow> ptr \<Rightarrow> nat \<Rightarrow> ptr option" where
  "mrGetDesc cfg a n =
     (if scalableMemReg cfg then Some NULL
      else (case getMemEntry (memTab cfg) a n of
              None \<Rightarrow> None
            | Some mr \<Rightarrow> Some (me_desc mr)))"

definition mrGetKey :: "comm_cfg \<Rightarrow> nat \<Rightarrow> ptr \<Rightarrow> nat \<Rightarrow> (64 word \<times> 64 word) option" where
  "mrGetKey cfg iNode a n =
     (if scalableMemReg cfg then Some (0, word_of_nat a)
      else (case getMemEntry (memTabMap cfg iNode) a n of
              None \<Rightarrow> None
            | Some mr \<Rightarrow> Some (me_key mr, word_of_nat a - word_of_nat (me_base mr))))"

definition mrGetLocalKey :: "comm_cfg \<Rightarrow> ptr \<Rightarrow> nat \<Rightarrow> bool" where
  "mrGetLocalKey cfg a n = (mrGetKey cfg (chpl_nodeID cfg) a n \<noteq> None)"

section \<open>Allocating and freeing transmit contexts\<close>

text \<open>\<^verbatim>\<open>comm-ofi.c\<close>, lines 4039-4153.\<close>

definition upd_tci :: "nat \<Rightarrow> (perTxCtxInfo_t \<Rightarrow> perTxCtxInfo_t) \<Rightarrow> comm_state \<Rightarrow> comm_state" where
  "upd_tci t f st = st\<lparr> tciTab := (tciTab st)(t := f (tciTab st t)) \<rparr>"

text \<open>
  \<^verbatim>\<open>static __thread int last_iw = 0;\<close> is declared in \<^verbatim>\<open>findFreeTciTabEntry\<close> and
  never assigned: every search starts after entry 0.
\<close>

definition last_iw :: nat where
  "last_iw = 0"

text \<open>
  One probe of the inner loop: the index, the value of \<^verbatim>\<open>allBound\<close> after it (true
  when this entry and all entries probed before it in the scan were seen bound), and the
  value that \<^verbatim>\<open>atomic_exchange_bool(&tciTab[iw].allocated, true)\<close> returned.
\<close>

type_synonym probe = "nat \<times> bool \<times> bool"

text \<open>
  The inner \<^verbatim>\<open>do ... while (tcip == NULL && iw != last_iw)\<close> (lines 4125-4132), with
  \<open>n\<close> for \<^verbatim>\<open>numWorkerTxCtxs\<close>.  The other threads act before the read of \<^verbatim>\<open>bound\<close>
  and again before the exchange.  The result is \<^verbatim>\<open>tcip\<close>, \<^verbatim>\<open>allBound\<close>, the clock,
  the table and the probes made.
\<close>

function findFree_scan ::
  "(nat \<Rightarrow> tciTab_t \<Rightarrow> tciTab_t) \<Rightarrow> nat \<Rightarrow> nat \<Rightarrow> bool \<Rightarrow> nat \<Rightarrow> tciTab_t
     \<Rightarrow> nat option \<times> bool \<times> nat \<times> tciTab_t \<times> probe list" where
  "findFree_scan oth n iw allBound k tab =
     (let iw' = (if iw + 1 \<ge> n then 0 else iw + 1);
          tab1 = oth k tab;
          allBound' = (allBound \<and> bound (tab1 iw'));
          tab2 = oth (k + 1) tab1;
          old = allocated (tab2 iw');
          tab3 = tab2(iw' := (tab2 iw')\<lparr> allocated := True \<rparr>)
      in if old \<and> iw' \<noteq> last_iw
         then (case findFree_scan oth n iw' allBound' (k + 2) tab3 of
                 (r, ab, k', tab', ps) \<Rightarrow> (r, ab, k', tab', (iw', allBound', old) # ps))
         else (if old then None else Some iw', allBound', k + 2, tab3, [(iw', allBound', old)]))"
  by pat_completeness auto
termination
  by (relation "measure (\<lambda>(oth, n, iw, allBound, k, tab). n - iw)")
     (auto simp: last_iw_def split: if_splits)

datatype find_result = Found nat | AllBound | StillSearching

text \<open>
  The outer \<^verbatim>\<open>do ... while (tcip == NULL)\<close> (lines 4121-4138).  Each unit of fuel pays
  for one scan; a scan that claims nothing and saw an unbound entry is followed by
  \<^verbatim>\<open>local_yield()\<close> and another scan.  \<open>AllBound\<close> is the failed \<^verbatim>\<open>CHK_FALSE(allBound)\<close>.
  The last component lists the probes of every scan made.
\<close>

fun findFree_worker ::
  "nat \<Rightarrow> (nat \<Rightarrow> tciTab_t \<Rightarrow> tciTab_t) \<Rightarrow> nat \<Rightarrow> nat \<Rightarrow> tciTab_t
     \<Rightarrow> find_result \<times> nat \<times> tciTab_t \<times> probe list list" where
  "findFree_worker 0 oth n k tab = (StillSearching, k, tab, [])"
| "findFree_worker (Suc f) oth n k tab =
     (case findFree_scan oth n last_iw True k tab of
        (Some i, allBound, k', tab', ps) \<Rightarrow> (Found i, k', tab', [ps])
      | (None, allBound, k', tab', ps) \<Rightarrow>
          if allBound then (AllBound, k', tab', [ps])
          else (case findFree_worker f oth n k' tab' of
                  (r, k'', tab'', h) \<Rightarrow> (r, k'', tab'', ps # h)))"

text \<open>
  \<^verbatim>\<open>findFreeTciTabEntry\<close>.  \<^verbatim>\<open>numWorkerTxCtxs\<close> is an \<^verbatim>\<open>int\<close> difference in the
  source; initialisation sets \<^verbatim>\<open>tciTabLen\<close> to the number of worker contexts plus
  \<^verbatim>\<open>numAmHandlers\<close>, so it is not negative.  The trace gets one \<open>Local_yield\<close> for
  every scan but the last.
\<close>

definition findFreeTciTabEntry ::
  "nat \<Rightarrow> comm_cfg \<Rightarrow> bool \<Rightarrow> comm_state \<Rightarrow> (nat \<times> comm_state) outcome" where
  "findFreeTciTabEntry fuel cfg bindToAmHandler st =
     (let numWorkerTxCtxs = tciTabLen cfg - numAmHandlers cfg in
      if bindToAmHandler then
        (let tab1 = others cfg (clock st) (tciTab st);
             old = allocated (tab1 numWorkerTxCtxs);
             tab2 = tab1(numWorkerTxCtxs := (tab1 numWorkerTxCtxs)\<lparr> allocated := True \<rparr>)
         in CHK_FALSE old
              (Ret (numWorkerTxCtxs, st\<lparr> tciTab := tab2, clock := clock st + 1 \<rparr>)))
      else
        (case findFree_worker fuel (others cfg) numWorkerTxCtxs (clock st) (tciTab st) of
           (Found i, k, tab, h) \<Rightarrow>
             Ret (i, st\<lparr> tciTab := tab, clock := k,
                         trace := trace st @ replicate (length h - 1) Local_yield \<rparr>)
         | (AllBound, k, tab, h) \<Rightarrow> Abort
         | (StillSearching, k, tab, h) \<Rightarrow> OutOfFuel))"

text \<open>Lines 4075-4087 of \<^verbatim>\<open>tciAllocCommon\<close>: find an entry, remember it, maybe bind it.\<close>

definition tciAlloc_find ::
  "nat \<Rightarrow> comm_cfg \<Rightarrow> bool \<Rightarrow> comm_state \<Rightarrow> (nat \<times> comm_state) outcome" where
  "tciAlloc_find fuel cfg bindToAmHandler st =
     obind (findFreeTciTabEntry fuel cfg bindToAmHandler st)
       (\<lambda>(t, st1).
          let st2 = st1\<lparr> ttcip := Some t \<rparr>
          in Ret (t, if bindToAmHandler \<or> (tciTabFixedAssignments cfg \<and> isFixedThread cfg)
                     then upd_tci t (\<lambda>e. e\<lparr> bound := True \<rparr>) st2
                     else st2))"

definition tciAllocCommon ::
  "nat \<Rightarrow> comm_cfg \<Rightarrow> bool \<Rightarrow> comm_state \<Rightarrow> (nat \<times> comm_state) outcome" where
  "tciAllocCommon fuel cfg bindToAmHandler st =
     (case ttcip st of
        None \<Rightarrow> tciAlloc_find fuel cfg bindToAmHandler st
      | Some t \<Rightarrow>
          if bound (tciTab st t) then Ret (t, st)
          else
            (let tab1 = others cfg (clock st) (tciTab st);
                 old = allocated (tab1 t);
                 st1 = st\<lparr> tciTab := tab1(t := (tab1 t)\<lparr> allocated := True \<rparr>),
                           clock := clock st + 1 \<rparr>
             in if \<not> old then Ret (t, st1)
                else tciAlloc_find fuel cfg bindToAmHandler st1))"

definition tciAlloc :: "nat \<Rightarrow> comm_cfg \<Rightarrow> comm_state \<Rightarrow> (nat \<times> comm_state) outcome" where
  "tciAlloc fuel cfg st = tciAllocCommon fuel cfg False st"

definition tciAllocForAmHandler ::
  "nat \<Rightarrow> comm_cfg \<Rightarrow> comm_state \<Rightarrow> (nat \<times> comm_state) outcome" where
  "tciAllocForAmHandler fuel cfg st = tciAllocCommon fuel cfg True st"

definition tciFree :: "nat \<Rightarrow> comm_state \<Rightarrow> comm_state" where
  "tciFree t st =
     (if \<not> bound (tciTab st t) then upd_tci t (\<lambda>e. e\<lparr> allocated := False \<rparr>) st else st)"

text \<open>
  An entry that is bound and allocated.  The other threads run the same code, so they are
  taken to leave such an entry as it is.
\<close>

definition pinned :: "tciTab_t \<Rightarrow> nat \<Rightarrow> bool" where
  "pinned tab i = (bound (tab i) \<and> allocated (tab i))"

definition others_keep_pinned :: "comm_cfg \<Rightarrow> nat \<Rightarrow> bool" where
  "others_keep_pinned cfg i = (\<forall>k tab. pinned tab i \<longrightarrow> pinned (others cfg k tab) i)"

subsection \<open>Reading the probes of a search\<close>

text \<open>
  The order in which a scan that starts after entry \<open>iw\<close> visits the entries when it
  claims nothing: upwards to the end of the worker range, then entry 0.
\<close>

definition scan_order :: "nat \<Rightarrow> nat \<Rightarrow> nat list" where
  "scan_order n iw = [Suc iw ..< n] @ [0]"

text \<open>A full scan that claimed nothing: every exchange returned true.\<close>

definition scan_failed :: "nat \<Rightarrow> probe list \<Rightarrow> bool" where
  "scan_failed n ps = (map fst ps = scan_order n last_iw \<and> (\<forall>p \<in> set ps. snd (snd p)))"

text \<open>Every entry probed was seen bound.\<close>

definition saw_all_bound :: "probe list \<Rightarrow> bool" where
  "saw_all_bound ps = (\<forall>p \<in> set ps. fst (snd p))"

text \<open>
  A scan that ended by claiming entry \<open>i\<close>: its last exchange, on \<open>i\<close>, returned false,
  and all exchanges before it returned true.
\<close>

definition scan_claimed :: "nat \<Rightarrow> probe list \<Rightarrow> bool" where
  "scan_claimed i ps =
     (ps \<noteq> [] \<and> fst (last ps) = i \<and> \<not> snd (snd (last ps))
      \<and> (\<forall>p \<in> set (butlast ps). snd (snd p)))"

section \<open>Issuing transactions and waiting for them\<close>

definition incr_numTxnsOut :: "nat \<Rightarrow> comm_state \<Rightarrow> comm_state" where
  "incr_numTxnsOut t = upd_tci t (\<lambda>e. e\<lparr> numTxnsOut := numTxnsOut e + 1 \<rparr>)"

definition incr_numTxnsSent :: "nat \<Rightarrow> comm_state \<Rightarrow> comm_state" where
  "incr_numTxnsSent t = upd_tci t (\<lambda>e. e\<lparr> numTxnsSent := numTxnsSent e + 1 \<rparr>)"

text \<open>
  \<^verbatim>\<open>(*tcip->checkTxCmplsFn)(tcip)\<close>: \<^verbatim>\<open>checkTxCmplsCQ\<close> for a context with a queue,
  \<^verbatim>\<open>checkTxCmplsCntr\<close> for one with a counter (lines 4992-5016).  The environment says
  how many events the queue held, or what the counter read.
\<close>

definition checkTxCmpls :: "comm_cfg \<Rightarrow> nat \<Rightarrow> comm_state \<Rightarrow> comm_state outcome" where
  "checkTxCmpls cfg t st =
     (let e = tciTab st t;
          v = cqEvents cfg (clock st);
          st1 = st\<lparr> clock := clock st + 1 \<rparr>
      in if txCQ e then Ret (upd_tci t (\<lambda>e. e\<lparr> numTxnsOut := numTxnsOut e - v \<rparr>) st1)
         else if v > numTxnsSent e then Abort
         else Ret (upd_tci t (\<lambda>e. e\<lparr> numTxnsOut := numTxnsSent e - v \<rparr>) st1))"

text \<open>
  \<^verbatim>\<open>waitForTxnComplete\<close> (lines 5073-5089) spins, with \<^verbatim>\<open>sched_yield()\<close>, until the
  fabric reports the completion.  That it does is the provider's contract, so the wait is
  one event and one reading of the completions that arrived meanwhile.
\<close>

definition waitForTxnComplete ::
  "comm_cfg \<Rightarrow> nat \<Rightarrow> txn_ctx \<Rightarrow> comm_state \<Rightarrow> comm_state outcome" where
  "waitForTxnComplete cfg t ctx st =
     checkTxCmpls cfg t (emit [WaitForTxnComplete t ctx] st)"

text \<open>
  The optional \<^verbatim>\<open>tcip\<close> argument of the low-level calls: \<^verbatim>\<open>NULL\<close> makes the callee
  allocate a context and free it again.
\<close>

definition with_tcip ::
  "nat \<Rightarrow> comm_cfg \<Rightarrow> nat option \<Rightarrow> comm_state \<Rightarrow> (nat \<times> comm_state) outcome" where
  "with_tcip fuel cfg tcip st =
     (case tcip of None \<Rightarrow> tciAlloc fuel cfg st | Some t \<Rightarrow> Ret (t, st))"

definition release_tcip :: "nat option \<Rightarrow> nat \<Rightarrow> comm_state \<Rightarrow> comm_state" where
  "release_tcip tcip t st = (if tcip = None then tciFree t st else st)"

text \<open>\<^verbatim>\<open>ofi_get_ll\<close> (lines 4582-4617).\<close>

definition ofi_get_ll ::
  "nat \<Rightarrow> comm_cfg \<Rightarrow> ptr \<Rightarrow> nat \<Rightarrow> ptr \<Rightarrow> nat \<Rightarrow> txn_ctx \<Rightarrow> nat option \<Rightarrow> comm_state
     \<Rightarrow> comm_state outcome" where
  "ofi_get_ll fuel cfg addr node raddr sz ctx tcip st =
     (case mrGetKey cfg node raddr sz of
        None \<Rightarrow> Abort
      | Some (mrKey, mrRaddr) \<Rightarrow>
          (case mrGetDesc cfg addr sz of
             None \<Rightarrow> Abort
           | Some mrDesc \<Rightarrow>
               obind (with_tcip fuel cfg tcip st)
                 (\<lambda>(t, st1).
                    Ret (release_tcip tcip t
                          (incr_numTxnsSent t (incr_numTxnsOut t
                            (emit [Fi_read t addr sz node mrRaddr mrKey ctx] st1)))))))"

text \<open>
  A buffer handed to the fabric: the caller's address when it is registered, else a bounce
  buffer, which must be registered (lines 3085-3092, 4191-4197, 4269-4274, 4514-4519,
  4561-4565).  \<open>copy\<close> says whether the data are copied into the bounce buffer.
\<close>

definition bounce_if ::
  "comm_cfg \<Rightarrow> bool \<Rightarrow> bool \<Rightarrow> bool \<Rightarrow> ptr \<Rightarrow> nat \<Rightarrow> comm_state \<Rightarrow> (ptr \<times> comm_state) outcome" where
  "bounce_if cfg registered bounce_registered copy addr sz st =
     (if registered then Ret (addr, st)
      else CHK_TRUE bounce_registered
             (Ret (allocBounceBuf cfg sz,
                   if copy then emit [Memcpy (allocBounceBuf cfg sz) addr sz] st else st)))"

section \<open>Forcing PUTs into visibility\<close>

text \<open>\<^verbatim>\<open>mcmReleaseOneNode\<close> (lines 2586-2603): a dummy GET of one byte, and the wait for it.\<close>

definition mcmReleaseOneNode ::
  "nat \<Rightarrow> comm_cfg \<Rightarrow> nat \<Rightarrow> nat \<Rightarrow> comm_state \<Rightarrow> comm_state outcome" where
  "mcmReleaseOneNode fuel cfg node t st =
     (if txCQ (tciTab st t)
      then obind (ofi_get_ll fuel cfg (orderDummy cfg) node (orderDummyMap cfg node) 1
                    Ctx_Done (Some t) st)
             (waitForTxnComplete cfg t Ctx_Done)
      else obind (ofi_get_ll fuel cfg (orderDummy cfg) node (orderDummyMap cfg node) 1
                    Ctx_NULL (Some t) st)
             (waitForTxnComplete cfg t Ctx_NULL))"

text \<open>
  The wait for room in the completion queue inside \<^verbatim>\<open>mcmReleaseAllNodes\<close>
  (lines 2627-2630).
\<close>

fun wait_cq_room :: "nat \<Rightarrow> comm_cfg \<Rightarrow> nat \<Rightarrow> comm_state \<Rightarrow> comm_state outcome" where
  "wait_cq_room fuel cfg t st =
     (if txCQ (tciTab st t) \<and> txCQLen cfg \<le> unat (numTxnsOut (tciTab st t))
      then (case fuel of
              0 \<Rightarrow> OutOfFuel
            | Suc f \<Rightarrow> obind (checkTxCmpls cfg t (emit [Sched_yield] st)) (wait_cq_room f cfg t))
      else Ret st)"

text \<open>The body of the loop over the set bits (lines 2624-2631).\<close>

definition mcm_release ::
  "nat \<Rightarrow> comm_cfg \<Rightarrow> nat \<Rightarrow> nat \<Rightarrow> bitmap_t \<Rightarrow> comm_state
     \<Rightarrow> (bitmap_t \<times> comm_state) outcome" where
  "mcm_release fuel cfg t node b st =
     obind (checkTxCmpls cfg t st)
       (\<lambda>st1. obind (wait_cq_room fuel cfg t st1)
          (\<lambda>st2. obind (mcmReleaseOneNode fuel cfg node t st2)
             (\<lambda>st3. Ret (bitmapClear b node, st3))))"

text \<open>
  \<^verbatim>\<open>BITMAP_FOREACH_SET\<close> (lines 644-656): the inner loop over the bits \<^verbatim>\<open>_bi\<close> of
  element \<^verbatim>\<open>_ei\<close>, and the outer loop over the elements.  Each test reads the bitmap as
  the body left it.
\<close>

fun mcm_bits ::
  "nat \<Rightarrow> comm_cfg \<Rightarrow> nat \<Rightarrow> nat \<Rightarrow> nat list \<Rightarrow> bitmap_t \<Rightarrow> comm_state
     \<Rightarrow> (bitmap_t \<times> comm_state) outcome" where
  "mcm_bits fuel cfg t ei [] b st = Ret (b, st)"
| "mcm_bits fuel cfg t ei (bi # bis) b st =
     (if (bm_map b ! ei) AND bitmapElemBit bi \<noteq> 0
      then obind (mcm_release fuel cfg t (ei * bitmapElemWidth + bi) b st)
             (\<lambda>(b', st'). mcm_bits fuel cfg t ei bis b' st')
      else mcm_bits fuel cfg t ei bis b st)"

fun mcm_elems ::
  "nat \<Rightarrow> comm_cfg \<Rightarrow> nat \<Rightarrow> nat list \<Rightarrow> bitmap_t \<Rightarrow> comm_state
     \<Rightarrow> (bitmap_t \<times> comm_state) outcome" where
  "mcm_elems fuel cfg t [] b st = Ret (b, st)"
| "mcm_elems fuel cfg t (ei # eis) b st =
     obind (if bm_map b ! ei \<noteq> 0
            then mcm_bits fuel cfg t ei
                   [0 ..< min bitmapElemWidth (bm_len b - ei * bitmapElemWidth)] b st
            else Ret (b, st))
       (\<lambda>(b', st'). mcm_elems fuel cfg t eis b' st')"

text \<open>\<^verbatim>\<open>mcmReleaseAllNodes\<close> (lines 2606-2637); the bitmap is returned as the loop left it.\<close>

definition mcmReleaseAllNodes ::
  "nat \<Rightarrow> comm_cfg \<Rightarrow> bitmap_t \<Rightarrow> nat option \<Rightarrow> comm_state
     \<Rightarrow> (bitmap_t \<times> comm_state) outcome" where
  "mcmReleaseAllNodes fuel cfg b tcip st =
     obind (with_tcip fuel cfg tcip st)
       (\<lambda>(t, st1).
          obind (mcm_elems fuel cfg t [0 ..< bitmapNumElems (bm_len b)] b st1)
            (\<lambda>(b', st2). Ret (b', release_tcip tcip t st2)))"

text \<open>
  \<^verbatim>\<open>waitForPutsVisOneNode\<close> and \<^verbatim>\<open>waitForPutsVisAllNodes\<close> (lines 5092-5153).  Every
  call in the file passes \<^verbatim>\<open>NULL\<close> for \<^verbatim>\<open>prvData\<close>, so the task data always come from
  \<^verbatim>\<open>get_comm_taskPrvdata()\<close>.
\<close>

definition waitForPutsVisOneNode ::
  "nat \<Rightarrow> comm_cfg \<Rightarrow> nat \<Rightarrow> nat \<Rightarrow> comm_state \<Rightarrow> comm_state outcome" where
  "waitForPutsVisOneNode fuel cfg node t st =
     (if \<not> haveDeliveryComplete cfg \<and> bound (tciTab st t) then
        (case prvData st of
           None \<Rightarrow> Abort
         | Some pd \<Rightarrow>
             (case putBitmap pd of
                None \<Rightarrow> Ret st
              | Some b \<Rightarrow>
                  if bitmapTest b node
                  then mcmReleaseOneNode fuel cfg node t
                         (st\<lparr> prvData := Some (pd\<lparr> putBitmap := Some (bitmapClear b node) \<rparr>) \<rparr>)
                  else Ret st))
      else Ret st)"

definition waitForPutsVisAllNodes ::
  "nat \<Rightarrow> comm_cfg \<Rightarrow> nat option \<Rightarrow> bool \<Rightarrow> comm_state \<Rightarrow> comm_state outcome" where
  "waitForPutsVisAllNodes fuel cfg tcip taskEnding st =
     (if chpl_numNodes cfg > 1 \<and> \<not> haveDeliveryComplete cfg then
        obind (with_tcip fuel cfg tcip st)
          (\<lambda>(t, st1).
             obind
               (if bound (tciTab st1 t) then
                  (case prvData st1 of
                     None \<Rightarrow> Abort
                   | Some pd \<Rightarrow>
                       (case putBitmap pd of
                          None \<Rightarrow> Ret st1
                        | Some b \<Rightarrow>
                            obind (mcmReleaseAllNodes fuel cfg b None st1)
                              (\<lambda>(b', st2).
                                 Ret (st2\<lparr> prvData :=
                                        Some (pd\<lparr> putBitmap :=
                                                if taskEnding then None else Some b' \<rparr>) \<rparr>))))
                else Ret st1)
               (\<lambda>st3. Ret (release_tcip tcip t st3)))
      else Ret st)"

section \<open>Active-message requests\<close>

text \<open>\<^verbatim>\<open>retireDelayedAmDone\<close> and \<^verbatim>\<open>setUpDelayedAmDone\<close> (lines 3184-3232).\<close>

definition retireDelayedAmDone :: "comm_cfg \<Rightarrow> bool \<Rightarrow> comm_state \<Rightarrow> comm_state" where
  "retireDelayedAmDone cfg taskEnding st =
     (case prvData st of
        None \<Rightarrow> st
      | Some pd \<Rightarrow>
          (let st1 = (if amDonePending pd
                      then emit [AmWaitForDone (prv_amDone_addr cfg)]
                             (st\<lparr> prvData := Some (pd\<lparr> amDonePending := False \<rparr>) \<rparr>)
                      else st)
           in if taskEnding
              then st1\<lparr> prvData := map_option (\<lambda>pd. pd\<lparr> taskIsEnding := True \<rparr>) (prvData st1) \<rparr>
              else st1))"

text \<open>The result is the return value, \<^verbatim>\<open>*ppAmDone\<close> and the state.\<close>

definition setUpDelayedAmDone ::
  "comm_cfg \<Rightarrow> comm_state \<Rightarrow> bool \<times> ptr option \<times> comm_state" where
  "setUpDelayedAmDone cfg st =
     (case prvData st of
        None \<Rightarrow> (False, None, st)
      | Some pd \<Rightarrow>
          if taskIsEnding pd then (True, None, st)
          else (True, Some (prv_amDone_addr cfg),
                st\<lparr> prvData := Some (pd\<lparr> amDonePending := True \<rparr>) \<rparr>))"

text \<open>
  \<^verbatim>\<open>amRequestCommon\<close> (lines 3027-3167), in the order of the source: the done flag
  (3036-3048), the transmit context (3080-3083), the copy of the request into registered
  memory (3085-3092), the step for the memory consistency model (3110-3117), the
  transmission (3124-3151) and the clean-up with the wait for the done flag (3153-3166).
  \<open>blocking\<close> says that \<^verbatim>\<open>ppAmDone\<close> is not \<^verbatim>\<open>NULL\<close>; in every caller it points at
  the \<^verbatim>\<open>pAmDone\<close> member of the request.
\<close>

definition amRequestCommon_done :: "comm_cfg \<Rightarrow> bool \<Rightarrow> (ptr option) outcome" where
  "amRequestCommon_done cfg blocking =
     (if blocking then
        (if mrGetLocalKey cfg (amDone_addr cfg) 1 then Ret (Some (amDone_addr cfg))
         else CHK_TRUE (mrGetLocalKey cfg (allocBounceBuf cfg 1) 1)
                (Ret (Some (allocBounceBuf cfg 1))))
      else Ret None)"

definition amRequestCommon_mcm ::
  "nat \<Rightarrow> comm_cfg \<Rightarrow> nat \<Rightarrow> amRequest_t \<Rightarrow> nat \<Rightarrow> comm_state \<Rightarrow> comm_state outcome" where
  "amRequestCommon_mcm fuel cfg node req t st =
     (if b_op req = am_opExecOn
         \<or> b_op req = am_opExecOnLrg
         \<or> (b_op req = am_opAMO \<and> amo_ofiOp req \<noteq> FI_ATOMIC_READ)
      then waitForPutsVisAllNodes fuel cfg (Some t) False st
      else if b_op req = am_opGet \<or> b_op req = am_opPut
      then waitForPutsVisOneNode fuel cfg node t st
      else Ret st)"

definition amRequestCommon_send ::
  "comm_cfg \<Rightarrow> nat \<Rightarrow> amRequest_t \<Rightarrow> nat \<Rightarrow> ptr option \<Rightarrow> nat \<Rightarrow> comm_state
     \<Rightarrow> comm_state outcome" where
  "amRequestCommon_send cfg node req reqSize pAmDone t st =
     (if pAmDone = None \<and> reqSize \<le> inject_size cfg
      then Ret (incr_numTxnsSent t (emit [Fi_inject t req reqSize node] st))
      else waitForTxnComplete cfg t Ctx_Done
             (incr_numTxnsSent t (incr_numTxnsOut t (emit [Fi_send t req reqSize node] st))))"

definition amRequestCommon_finish ::
  "comm_cfg \<Rightarrow> ptr \<Rightarrow> ptr \<Rightarrow> ptr option \<Rightarrow> nat option \<Rightarrow> nat \<Rightarrow> comm_state \<Rightarrow> comm_state" where
  "amRequestCommon_finish cfg reqAddr myReq pAmDone tcip t st =
     (let st1 = release_tcip tcip t st;
          st2 = (if myReq \<noteq> reqAddr then emit [FreeBounceBuf myReq] st1 else st1)
      in case pAmDone of
           None \<Rightarrow> st2
         | Some p \<Rightarrow>
             (let st3 = emit [AmWaitForDone p] st2
              in if p \<noteq> amDone_addr cfg then emit [FreeBounceBuf p] st3 else st3))"

definition amRequestCommon ::
  "nat \<Rightarrow> comm_cfg \<Rightarrow> nat \<Rightarrow> amRequest_t \<Rightarrow> ptr \<Rightarrow> nat \<Rightarrow> bool \<Rightarrow> bool \<Rightarrow> nat option
     \<Rightarrow> comm_state \<Rightarrow> comm_state outcome" where
  "amRequestCommon fuel cfg node req reqAddr reqSize blocking yieldDuringTxnWait tcip st =
     obind (amRequestCommon_done cfg blocking)
       (\<lambda>pAmDone.
          let req1 = (if blocking then req\<lparr> b_pAmDone := pAmDone \<rparr> else req) in
          obind (with_tcip fuel cfg tcip st)
            (\<lambda>(t, st1).
               obind (bounce_if cfg (mrGetDesc cfg reqAddr reqSize \<noteq> None)
                        (mrGetDesc cfg (allocBounceBuf cfg reqSize) reqSize \<noteq> None)
                        True reqAddr reqSize st1)
                 (\<lambda>(myReq, st2).
                    obind (amRequestCommon_mcm fuel cfg node req1 t st2)
                      (\<lambda>st3.
                         obind (amRequestCommon_send cfg node req1 reqSize pAmDone t st3)
                           (\<lambda>st4.
                              Ret (amRequestCommon_finish cfg reqAddr myReq pAmDone tcip t
                                     st4))))))"

text \<open>\<^verbatim>\<open>amRequestRMA\<close> (lines 2913-2925) and \<^verbatim>\<open>amRequestAMO\<close> (lines 2928-2994).\<close>

definition amRequestRMA ::
  "nat \<Rightarrow> comm_cfg \<Rightarrow> nat \<Rightarrow> amOp_t \<Rightarrow> ptr \<Rightarrow> ptr \<Rightarrow> nat \<Rightarrow> comm_state \<Rightarrow> comm_state outcome" where
  "amRequestRMA fuel cfg node op addr raddr sz st =
     amRequestCommon fuel cfg node
       \<lparr> b_op = op, b_node = chpl_nodeID cfg, b_pAmDone = None,
         req_payload = Payload_rma raddr addr sz \<rparr>
       (req_addr cfg) (sizeof_req_rma cfg) True True None
       (retireDelayedAmDone cfg False st)"

definition amRequestAMO ::
  "nat \<Rightarrow> comm_cfg \<Rightarrow> nat \<Rightarrow> ptr \<Rightarrow> ptr \<Rightarrow> ptr \<Rightarrow> ptr \<Rightarrow> fi_op \<Rightarrow> fi_datatype \<Rightarrow> nat
     \<Rightarrow> comm_state \<Rightarrow> comm_state outcome" where
  "amRequestAMO fuel cfg node object operand1 operand2 result ofiOp ofiType sz st =
     obind (tciAlloc fuel cfg st)
       (\<lambda>(t, st1).
          obind (if result = NULL
                 then (case setUpDelayedAmDone cfg st1 of
                         (d, p, s) \<Rightarrow> Ret (result, d, p, s))
                 else if mrGetLocalKey cfg result sz then Ret (result, False, None, st1)
                 else CHK_TRUE (mrGetLocalKey cfg (allocBounceBuf cfg sz) sz)
                        (Ret (allocBounceBuf cfg sz, False, None, st1)))
            (\<lambda>(myResult, delayBlocking, pAmDone, st2).
               obind (amRequestCommon fuel cfg node
                        \<lparr> b_op = am_opAMO, b_node = chpl_nodeID cfg,
                          b_pAmDone = (if delayBlocking then pAmDone else None),
                          req_payload = Payload_amo ofiOp ofiType sz object myResult \<rparr>
                        (req_addr cfg) (sizeof_req_amo cfg) (\<not> delayBlocking) True (Some t) st2)
                 (\<lambda>st3.
                    Ret (tciFree t
                          (if myResult \<noteq> result
                           then emit [Memcpy result myResult sz, FreeBounceBuf myResult] st3
                           else st3)))))"

section \<open>PUT and GET\<close>

text \<open>
  The loop that splits a transfer larger than \<^verbatim>\<open>max_msg_size\<close>; \<^verbatim>\<open>ofi_put\<close>
  (lines 4167-4174) and \<^verbatim>\<open>ofi_get\<close> (lines 4490-4497) have the same loop around their
  own recursive call, here \<open>xfer\<close>:
  \<^verbatim>\<open>for (size_t i = 0; i < size; i += chunkSize) {
       if (chunkSize > size - i) chunkSize = size - i;
       (void) ofi_put(&addr[i], node, &raddr[i], chunkSize); }\<close>
  Each unit of fuel pays for one turn.  \<open>i + chunkSize\<close> never exceeds \<open>size\<close>, so the
  \<^verbatim>\<open>size_t\<close> arithmetic does not wrap.
\<close>

fun chunk_loop ::
  "nat \<Rightarrow> (ptr \<Rightarrow> ptr \<Rightarrow> nat \<Rightarrow> 's \<Rightarrow> 's outcome) \<Rightarrow> ptr \<Rightarrow> ptr \<Rightarrow> nat \<Rightarrow> nat \<Rightarrow> nat \<Rightarrow> 's
     \<Rightarrow> 's outcome" where
  "chunk_loop fuel xfer addr raddr sz i chunkSize st =
     (if i < sz then
        (case fuel of
           0 \<Rightarrow> OutOfFuel
         | Suc f \<Rightarrow>
             (let c = (if chunkSize > sz - i then sz - i else chunkSize)
              in obind (xfer (addr + i) (raddr + i) c st)
                   (chunk_loop f xfer addr raddr sz (i + c) c)))
      else Ret st)"

text \<open>
  \<^verbatim>\<open>ofi_put\<close> after the test for a split (lines 4179-4286).  The two \<^verbatim>\<open>assert\<close>s are
  branches of the model.
\<close>

definition ofi_put_direct ::
  "nat \<Rightarrow> comm_cfg \<Rightarrow> ptr \<Rightarrow> nat \<Rightarrow> nat \<Rightarrow> 64 word \<Rightarrow> 64 word \<Rightarrow> nat \<Rightarrow> comm_state
     \<Rightarrow> comm_state outcome" where
  "ofi_put_direct fuel cfg myAddr node sz mrRaddr mrKey t st =
     (if \<not> txCQ (tciTab st t) then Abort
      else if haveDeliveryComplete cfg \<or> \<not> bound (tciTab st t) \<or> sz > inject_size cfg then
        obind
          (let st1 = incr_numTxnsSent t (incr_numTxnsOut t
                       (emit [Fi_write t myAddr sz node mrRaddr mrKey
                                (if haveDeliveryComplete cfg then Ctx_Done else Ctx_NULL)] st))
           in if \<not> haveDeliveryComplete cfg
              then ofi_get_ll fuel cfg (orderDummy cfg) node (orderDummyMap cfg node) 1
                     Ctx_Done (Some t) st1
              else Ret st1)
          (waitForTxnComplete cfg t Ctx_Done)
      else
        (let st1 = incr_numTxnsSent t
                     (emit [Fi_inject_write t myAddr sz node mrRaddr mrKey] st)
         in case prvData st1 of
              None \<Rightarrow> Abort
            | Some pd \<Rightarrow>
                Ret (st1\<lparr> prvData := Some (pd\<lparr> putBitmap :=
                       Some (bitmapSet
                               (case putBitmap pd of
                                  None \<Rightarrow> bitmapAlloc (chpl_numNodes cfg)
                                | Some b \<Rightarrow> b) node) \<rparr>) \<rparr>)))"

definition ofi_put_body ::
  "nat \<Rightarrow> comm_cfg \<Rightarrow> ptr \<Rightarrow> nat \<Rightarrow> ptr \<Rightarrow> nat \<Rightarrow> comm_state \<Rightarrow> comm_state outcome" where
  "ofi_put_body fuel cfg addr node raddr sz st =
     obind
       (case mrGetKey cfg node raddr sz of
          Some (mrKey, mrRaddr) \<Rightarrow>
            obind (bounce_if cfg (mrGetDesc cfg addr sz \<noteq> None)
                     (mrGetDesc cfg (allocBounceBuf cfg sz) sz \<noteq> None) True addr sz st)
              (\<lambda>(myAddr, st1).
                 obind (tciAlloc fuel cfg st1)
                   (\<lambda>(t, st2).
                      obind (ofi_put_direct fuel cfg myAddr node sz mrRaddr mrKey t st2)
                        (\<lambda>st3. Ret (myAddr, tciFree t st3))))
        | None \<Rightarrow>
            obind (bounce_if cfg (mrGetLocalKey cfg addr sz)
                     (mrGetLocalKey cfg (allocBounceBuf cfg sz) sz) True addr sz st)
              (\<lambda>(myAddr, st1).
                 obind (amRequestRMA fuel cfg node am_opGet myAddr raddr sz st1)
                   (\<lambda>st2. Ret (myAddr, st2))))
       (\<lambda>(myAddr, st').
          Ret (if myAddr \<noteq> addr then emit [FreeBounceBuf myAddr] st' else st'))"

text \<open>
  \<^verbatim>\<open>ofi_put\<close> (lines 4156-4287).  A unit of fuel pays for a level of the recursion; what
  is left pays for the turns of the loop and for the calls below.
\<close>

fun ofi_put ::
  "nat \<Rightarrow> comm_cfg \<Rightarrow> ptr \<Rightarrow> nat \<Rightarrow> ptr \<Rightarrow> nat \<Rightarrow> comm_state \<Rightarrow> comm_state outcome" where
  "ofi_put 0 cfg addr node raddr sz st = OutOfFuel"
| "ofi_put (Suc f) cfg addr node raddr sz st =
     (if sz > max_msg_size cfg
      then chunk_loop f (\<lambda>a r c. ofi_put f cfg a node r c) addr raddr sz 0 (max_msg_size cfg) st
      else ofi_put_body f cfg addr node raddr sz st)"

text \<open>\<^verbatim>\<open>ofi_get\<close> after the test for a split (lines 4502-4578).\<close>

definition ofi_get_direct ::
  "comm_cfg \<Rightarrow> ptr \<Rightarrow> nat \<Rightarrow> nat \<Rightarrow> 64 word \<Rightarrow> 64 word \<Rightarrow> nat \<Rightarrow> comm_state
     \<Rightarrow> comm_state outcome" where
  "ofi_get_direct cfg myAddr node sz mrRaddr mrKey t st =
     (let ctx = (if txCQ (tciTab st t) then Ctx_Done else Ctx_Id);
          st1 = incr_numTxnsSent t (incr_numTxnsOut t
                  (emit [Fi_read t myAddr sz node mrRaddr mrKey ctx] st))
      in obind
           (if \<not> haveDeliveryComplete cfg \<and> bound (tciTab st1 t) then
              (case prvData st1 of
                 None \<Rightarrow> Abort
               | Some pd \<Rightarrow>
                   Ret (case putBitmap pd of
                          None \<Rightarrow> st1
                        | Some b \<Rightarrow>
                            st1\<lparr> prvData := Some (pd\<lparr> putBitmap := Some (bitmapClear b node) \<rparr>) \<rparr>))
            else Ret st1)
           (waitForTxnComplete cfg t ctx))"

definition ofi_get_body ::
  "nat \<Rightarrow> comm_cfg \<Rightarrow> ptr \<Rightarrow> nat \<Rightarrow> ptr \<Rightarrow> nat \<Rightarrow> comm_state \<Rightarrow> comm_state outcome" where
  "ofi_get_body fuel cfg addr node raddr sz st =
     obind
       (case mrGetKey cfg node raddr sz of
          Some (mrKey, mrRaddr) \<Rightarrow>
            obind (bounce_if cfg (mrGetDesc cfg addr sz \<noteq> None)
                     (mrGetDesc cfg (allocBounceBuf cfg sz) sz \<noteq> None) False addr sz st)
              (\<lambda>(myAddr, st1).
                 obind (tciAlloc fuel cfg st1)
                   (\<lambda>(t, st2).
                      obind (ofi_get_direct cfg myAddr node sz mrRaddr mrKey t st2)
                        (\<lambda>st3. Ret (myAddr, tciFree t st3))))
        | None \<Rightarrow>
            obind (bounce_if cfg (mrGetLocalKey cfg addr sz)
                     (mrGetLocalKey cfg (allocBounceBuf cfg sz) sz) False addr sz st)
              (\<lambda>(myAddr, st1).
                 obind (amRequestRMA fuel cfg node am_opPut myAddr raddr sz st1)
                   (\<lambda>st2. Ret (myAddr, st2))))
       (\<lambda>(myAddr, st').
          Ret (if myAddr \<noteq> addr
               then emit [Memcpy addr myAddr sz, FreeBounceBuf myAddr] st'
               else st'))"

fun ofi_get ::
  "nat \<Rightarrow> comm_cfg \<Rightarrow> ptr \<Rightarrow> nat \<Rightarrow> ptr \<Rightarrow> nat \<Rightarrow> comm_state \<Rightarrow> comm_state outcome" where
  "ofi_get 0 cfg addr node raddr sz st = OutOfFuel"
| "ofi_get (Suc f) cfg addr node raddr sz st =
     (if sz > max_msg_size cfg
      then chunk_loop f (\<lambda>a r c. ofi_get f cfg a node r c) addr raddr sz 0 (max_msg_size cfg) st
      else ofi_get_body f cfg addr node raddr sz st)"

text \<open>
  \<^verbatim>\<open>chpl_comm_put\<close> and \<^verbatim>\<open>chpl_comm_get\<close> (lines 3795-3868), without the debug output,
  the callbacks and the diagnostics counters.
\<close>

definition chpl_comm_put ::
  "nat \<Rightarrow> comm_cfg \<Rightarrow> ptr \<Rightarrow> nat \<Rightarrow> ptr \<Rightarrow> nat \<Rightarrow> comm_state \<Rightarrow> comm_state outcome" where
  "chpl_comm_put fuel cfg addr node raddr sz st =
     (let st1 = retireDelayedAmDone cfg False st in
      CHK_TRUE (addr \<noteq> NULL)
        (CHK_TRUE (raddr \<noteq> NULL)
           (if sz = 0 then Ret st1
            else if node = chpl_nodeID cfg then Ret (emit [Memmove raddr addr sz] st1)
            else ofi_put fuel cfg addr node raddr sz st1)))"

definition chpl_comm_get ::
  "nat \<Rightarrow> comm_cfg \<Rightarrow> ptr \<Rightarrow> nat \<Rightarrow> ptr \<Rightarrow> nat \<Rightarrow> comm_state \<Rightarrow> comm_state outcome" where
  "chpl_comm_get fuel cfg addr node raddr sz st =
     (let st1 = retireDelayedAmDone cfg False st in
      CHK_TRUE (addr \<noteq> NULL)
        (CHK_TRUE (raddr \<noteq> NULL)
           (if sz = 0 then Ret st1
            else if node = chpl_nodeID cfg then Ret (emit [Memmove addr raddr sz] st1)
            else ofi_get fuel cfg addr node raddr sz st1)))"

text \<open>
  What \<^verbatim>\<open>memmove(dst, src, n)\<close> does to a memory of bytes: the \<open>n\<close> bytes at \<open>src\<close>, as
  they were, end up at \<open>dst\<close>.
\<close>

definition memmove :: "ptr \<Rightarrow> ptr \<Rightarrow> nat \<Rightarrow> (ptr \<Rightarrow> 8 word) \<Rightarrow> (ptr \<Rightarrow> 8 word)" where
  "memmove dst src n m = (\<lambda>x. if dst \<le> x \<and> x < dst + n then m (src + (x - dst)) else m x)"

text \<open>
  Modelled from the spec: the single logical transfer of \<open>n\<close> bytes from address \<open>a\<close> of the
  source memory \<open>src\<close> to address \<open>r\<close> of the destination memory.
\<close>

definition logical_transfer ::
  "(ptr \<Rightarrow> 8 word) \<Rightarrow> ptr \<Rightarrow> ptr \<Rightarrow> nat \<Rightarrow> (ptr \<Rightarrow> 8 word) \<Rightarrow> (ptr \<Rightarrow> 8 word)" where
  "logical_transfer src a r n dst =
     (\<lambda>x. if r \<le> x \<and> x < r + n then src (a + (x - r)) else dst x)"

section \<open>Atomic memory operations\<close>

text \<open>
  \<^verbatim>\<open>doCpuAMO\<close> (lines 5554-5720): the size check, then the switch over the operation
  with its \<^verbatim>\<open>INTERNAL_ERROR_V\<close> branches.  The atomic read-modify-write on the object is
  one event.
\<close>

definition cpu_amo_supported :: "fi_op \<Rightarrow> fi_datatype \<Rightarrow> bool" where
  "cpu_amo_supported ofiOp ofiType =
     (case ofiOp of
        FI_ATOMIC_WRITE \<Rightarrow> True
      | FI_ATOMIC_READ \<Rightarrow> True
      | FI_CSWAP \<Rightarrow> True
      | FI_BAND \<Rightarrow> ofiType \<in> {FI_INT32, FI_UINT32, FI_INT64, FI_UINT64}
      | FI_BOR \<Rightarrow> ofiType \<in> {FI_INT32, FI_UINT32, FI_INT64, FI_UINT64}
      | FI_BXOR \<Rightarrow> ofiType \<in> {FI_INT32, FI_UINT32, FI_INT64, FI_UINT64}
      | FI_SUM \<Rightarrow> ofiType \<in> {FI_INT32, FI_UINT32, FI_INT64, FI_UINT64, FI_FLOAT, FI_DOUBLE}
      | FI_OTHER_OP \<Rightarrow> False)"

definition doCpuAMO ::
  "ptr \<Rightarrow> ptr \<Rightarrow> ptr \<Rightarrow> ptr \<Rightarrow> fi_op \<Rightarrow> fi_datatype \<Rightarrow> nat \<Rightarrow> comm_state \<Rightarrow> comm_state outcome" where
  "doCpuAMO obj operand1 operand2 result ofiOp ofiType sz st =
     CHK_TRUE (sz = 4 \<or> sz = 8)
       (if cpu_amo_supported ofiOp ofiType then Ret (emit [Cpu_amo obj ofiOp ofiType sz] st)
        else Abort)"

text \<open>
  \<^verbatim>\<open>ofi_amo\<close> (lines 4748-4852).  An operand or result that is not \<^verbatim>\<open>NULL\<close> and not in
  registered memory goes through a bounce buffer.
\<close>

definition amo_bounce ::
  "comm_cfg \<Rightarrow> bool \<Rightarrow> ptr \<Rightarrow> nat \<Rightarrow> comm_state \<Rightarrow> (ptr \<times> comm_state) outcome" where
  "amo_bounce cfg copy p sz st =
     bounce_if cfg (p = NULL \<or> mrGetDesc cfg p sz \<noteq> None)
       (mrGetDesc cfg (allocBounceBuf cfg sz) sz \<noteq> None) copy p sz st"

definition ofi_amo ::
  "nat \<Rightarrow> comm_cfg \<Rightarrow> nat \<Rightarrow> 64 word \<Rightarrow> 64 word \<Rightarrow> ptr \<Rightarrow> ptr \<Rightarrow> ptr \<Rightarrow> fi_op \<Rightarrow> fi_datatype
     \<Rightarrow> nat \<Rightarrow> comm_state \<Rightarrow> comm_state outcome" where
  "ofi_amo fuel cfg node object mrKey operand1 operand2 result ofiOp ofiType sz st =
     obind (amo_bounce cfg False result sz st)
       (\<lambda>(myRes, st1).
          obind (amo_bounce cfg True operand1 sz st1)
            (\<lambda>(myOpnd1, st2).
               obind (amo_bounce cfg True operand2 sz st2)
                 (\<lambda>(myOpnd2, st3).
                    obind (tciAlloc fuel cfg st3)
                      (\<lambda>(t, st4).
                         obind (if ofiOp \<noteq> FI_ATOMIC_READ
                                then waitForPutsVisAllNodes fuel cfg (Some t) False st4
                                else Ret st4)
                           (\<lambda>st5.
                              obind (waitForTxnComplete cfg t
                                       (if txCQ (tciTab st5 t) then Ctx_Done else Ctx_Id)
                                       (incr_numTxnsSent t (incr_numTxnsOut t
                                          (emit [Fi_amo t node object mrKey ofiOp ofiType sz]
                                             st5))))
                                (\<lambda>st6.
                                   Ret (emit
                                          ((if result \<noteq> NULL \<and> myRes \<noteq> result
                                            then [Memcpy result myRes sz, FreeBounceBuf myRes]
                                            else [])
                                           @ (if myOpnd1 \<noteq> operand1
                                              then [FreeBounceBuf myOpnd1] else [])
                                           @ (if myOpnd2 \<noteq> operand2
                                              then [FreeBounceBuf myOpnd2] else []))
                                          (tciFree t st6))))))))"

text \<open>\<^verbatim>\<open>doAMO\<close> (lines 5515-5551); \<^verbatim>\<open>isAtomicValid\<close> reads the table \<open>validByType\<close>.\<close>

definition doAMO ::
  "nat \<Rightarrow> comm_cfg \<Rightarrow> nat \<Rightarrow> ptr \<Rightarrow> ptr \<Rightarrow> ptr \<Rightarrow> ptr \<Rightarrow> fi_op \<Rightarrow> fi_datatype \<Rightarrow> nat
     \<Rightarrow> comm_state \<Rightarrow> comm_state outcome" where
  "doAMO fuel cfg node object operand1 operand2 result ofiOp ofiType sz st =
     (if chpl_numNodes cfg \<le> 1
      then doCpuAMO object operand1 operand2 result ofiOp ofiType sz st
      else
        (let st1 = retireDelayedAmDone cfg False st in
         if \<not> validByType cfg ofiType \<or> mrGetKey cfg node object sz = None then
           (if node = chpl_nodeID cfg then
              obind (if ofiOp \<noteq> FI_ATOMIC_READ
                     then waitForPutsVisAllNodes fuel cfg None False st1
                     else Ret st1)
                (doCpuAMO object operand1 operand2 result ofiOp ofiType sz)
            else amRequestAMO fuel cfg node object operand1 operand2 result ofiOp ofiType sz st1)
         else
           (case mrGetKey cfg node object sz of
              None \<Rightarrow> Abort
            | Some (mrKey, mrRaddr) \<Rightarrow>
                ofi_amo fuel cfg node mrRaddr mrKey operand1 operand2 result ofiOp ofiType sz
                  st1)))"

text \<open>
  The public atomic operations are generated by macros (lines 5215-5427) for 32- and
  64-bit types; each passes \<^verbatim>\<open>sizeof(Type)\<close>, which is 4 or 8, as the size.  Two of
  them: \<^verbatim>\<open>chpl_comm_atomic_write_int64\<close> and \<^verbatim>\<open>chpl_comm_atomic_read_int32\<close>.
\<close>

definition chpl_comm_atomic_write_int64 ::
  "nat \<Rightarrow> comm_cfg \<Rightarrow> ptr \<Rightarrow> nat \<Rightarrow> ptr \<Rightarrow> comm_state \<Rightarrow> comm_state outcome" where
  "chpl_comm_atomic_write_int64 fuel cfg desired node object st =
     doAMO fuel cfg node object desired NULL NULL FI_ATOMIC_WRITE FI_INT64 8 st"

definition chpl_comm_atomic_read_int32 ::
  "nat \<Rightarrow> comm_cfg \<Rightarrow> ptr \<Rightarrow> nat \<Rightarrow> ptr \<Rightarrow> comm_state \<Rightarrow> comm_state outcome" where
  "chpl_comm_atomic_read_int32 fuel cfg result node object st =
     doAMO fuel cfg node object NULL NULL result FI_ATOMIC_READ FI_INT32 4 st"

section \<open>Observing a call\<close>

text \<open>The events of a call that returned.\<close>

definition outcome_trace :: "comm_state outcome \<Rightarrow> event list option" where
  "outcome_trace r = (case r of Ret st \<Rightarrow> Some (trace st) | Abort \<Rightarrow> None | OutOfFuel \<Rightarrow> None)"

text \<open>
  The second state has the events of the first and then only events of the given kind.
\<close>

definition trace_grows :: "(event \<Rightarrow> bool) \<Rightarrow> comm_state \<Rightarrow> comm_state \<Rightarrow> bool" where
  "trace_grows P st st' = (\<exists>es. trace st' = trace st @ es \<and> (\<forall>e \<in> set es. P e))"

text \<open>
  The events of forcing visibility: reads from the fabric, waits for them, yields.
\<close>

definition is_mcm_event :: "event \<Rightarrow> bool" where
  "is_mcm_event e =
     (case e of
        Fi_read _ _ _ _ _ _ _ \<Rightarrow> True
      | WaitForTxnComplete _ _ \<Rightarrow> True
      | Local_yield \<Rightarrow> True
      | Sched_yield \<Rightarrow> True
      | _ \<Rightarrow> False)"

definition is_cpu_amo :: "event \<Rightarrow> bool" where
  "is_cpu_amo e = (case e of Cpu_amo _ _ _ _ \<Rightarrow> True | _ \<Rightarrow> False)"

text \<open>The two ways in which \<^verbatim>\<open>amRequestCommon\<close> hands a request to the fabric.\<close>

definition is_am_send :: "event \<Rightarrow> bool" where
  "is_am_send e = (case e of Fi_send _ _ _ _ \<Rightarrow> True | Fi_inject _ _ _ _ \<Rightarrow> True | _ \<Rightarrow> False)"

definition is_yield :: "event \<Rightarrow> bool" where
  "is_yield e = (e = Local_yield \<or> e = Sched_yield)"

text \<open>
  The events of \<^verbatim>\<open>mcmReleaseOneNode\<close> (lines 2586-2603) for a node, on context \<open>t\<close>: the
  read of one byte from the node's \<^verbatim>\<open>orderDummyMap\<close> slot into \<^verbatim>\<open>orderDummy\<close>, with the
  key and the offset that \<^verbatim>\<open>mrGetKey\<close> finds for the slot, and the wait for its
  completion.
\<close>

definition dummy_get :: "comm_cfg \<Rightarrow> nat \<Rightarrow> txn_ctx \<Rightarrow> nat \<Rightarrow> event list" where
  "dummy_get cfg t ctx node =
     (let k = the (mrGetKey cfg node (orderDummyMap cfg node) 1)
      in [Fi_read t (orderDummy cfg) 1 node (snd k) (fst k) ctx, WaitForTxnComplete t ctx])"

text \<open>The nodes marked in a bitmap, in increasing order.\<close>

definition marked_nodes :: "bitmap_t \<Rightarrow> nat list" where
  "marked_nodes b = filter (bitmapTest b) [0 ..< bm_len b]"

text \<open>
  The data a fabric operation moves: the local address, the number of bytes, the node, and
  the offset and the key that designate the remote address.  \<open>put_data\<close> reads it off
  \<^verbatim>\<open>fi_write\<close> and \<^verbatim>\<open>fi_inject_write\<close>, \<open>get_data\<close> off \<^verbatim>\<open>fi_read\<close>.
\<close>

type_synonym rma_data = "ptr \<times> nat \<times> nat \<times> 64 word \<times> 64 word"

definition put_data :: "event \<Rightarrow> rma_data option" where
  "put_data e =
     (case e of
        Fi_write t a n node off key ctx \<Rightarrow> Some (a, n, node, off, key)
      | Fi_inject_write t a n node off key \<Rightarrow> Some (a, n, node, off, key)
      | _ \<Rightarrow> None)"

definition get_data :: "event \<Rightarrow> rma_data option" where
  "get_data e =
     (case e of Fi_read t a n node off key ctx \<Rightarrow> Some (a, n, node, off, key) | _ \<Rightarrow> None)"

text \<open>
  Modelled from the spec: libfabric is an external library, and what its operations do
  to memory is taken from their documented meaning.  A write moves \<open>n\<close> bytes from the
  local address to the address that the key and the offset designate on the target node,
  here \<open>va key off\<close>; a read moves them the other way.
  \<open>put_effect\<close> is what an event does to the memory of the target node, \<open>src\<close> being the
  local memory; \<open>get_effect\<close> is what it does to the local memory, \<open>src\<close> being the memory
  of the node read from.
\<close>

definition put_effect ::
  "(64 word \<Rightarrow> 64 word \<Rightarrow> ptr) \<Rightarrow> (ptr \<Rightarrow> 8 word) \<Rightarrow> event \<Rightarrow> (ptr \<Rightarrow> 8 word) \<Rightarrow> (ptr \<Rightarrow> 8 word)" where
  "put_effect va src e dst =
     (case put_data e of
        None \<Rightarrow> dst
      | Some (a, n, node, off, key) \<Rightarrow> logical_transfer src a (va key off) n dst)"

definition get_effect ::
  "(64 word \<Rightarrow> 64 word \<Rightarrow> ptr) \<Rightarrow> (ptr \<Rightarrow> 8 word) \<Rightarrow> event \<Rightarrow> (ptr \<Rightarrow> 8 word) \<Rightarrow> (ptr \<Rightarrow> 8 word)" where
  "get_effect va src e dst =
     (case get_data e of
        None \<Rightarrow> dst
      | Some (a, n, node, off, key) \<Rightarrow> logical_transfer src (va key off) a n dst)"

section \<open>A small configuration to run the model on\<close>

text \<open>
  Two nodes, two worker contexts and one for the AM handler, message ordering rather
  than delivery-complete, scalable memory registration, and no other thread at work.
\<close>

definition ex_cfg :: comm_cfg where
  "ex_cfg =
     \<lparr> haveDeliveryComplete = False, max_msg_size = 4, inject_size = 2,
       chpl_nodeID = 0, chpl_numNodes = 2, tciTabLen = 3, numAmHandlers = 1,
       tciTabFixedAssignments = False, isFixedThread = False, txCQLen = 8,
       scalableMemReg = True, memTab = [], memTabMap = (\<lambda>n. []),
       orderDummy = 4096, orderDummyMap = (\<lambda>n. 4096),
       validByType = (\<lambda>t. False),
       others = (\<lambda>k tab. tab), cqEvents = (\<lambda>k. 1),
       allocBounceBuf = (\<lambda>n. 8192), amDone_addr = 12288, prv_amDone_addr = 12304,
       req_addr = 12320, sizeof_req_rma = 40, sizeof_req_amo = 64 \<rparr>"

text \<open>Another thread releases entry 1 just before this thread's access number 5.\<close>

definition ex_release :: "nat \<Rightarrow> tciTab_t \<Rightarrow> tciTab_t" where
  "ex_release k tab = (if k = 5 then tab(1 := (tab 1)\<lparr> allocated := False \<rparr>) else tab)"

definition ex_tci :: "bool \<Rightarrow> bool \<Rightarrow> perTxCtxInfo_t" where
  "ex_tci a b = \<lparr> allocated = a, bound = b, txCQ = True, numTxnsOut = 0, numTxnsSent = 0 \<rparr>"

definition ex_prv :: chpl_comm_taskPrvData_t where
  "ex_prv = \<lparr> putBitmap = None, amDonePending = False, taskIsEnding = False \<rparr>"

text \<open>A thread that has used no context yet, with every entry in the given condition.\<close>

definition ex_state :: "bool \<Rightarrow> bool \<Rightarrow> comm_state" where
  "ex_state a b =
     \<lparr> tciTab = (\<lambda>i. ex_tci a b), ttcip = None, prvData = Some ex_prv, clock = 0,
       trace = [] \<rparr>"

section \<open>Properties of the tag encoding\<close>

lemma TXNTRK_TYPE_MASK_eq: "TXNTRK_TYPE_MASK = 1"
  by (simp add: TXNTRK_TYPE_MASK_def TXNTRK_TYPE_BITS_def)

lemma TXNTRK_ADDR_MASK_eq: "TXNTRK_ADDR_MASK = mask 63"
  by (simp add: TXNTRK_ADDR_MASK_def TXNTRK_ADDR_BITS_def TXNTRK_TYPE_MASK_eq
      TXNTRK_TYPE_BITS_def mask_eq_exp_minus_1)

lemma TXNTRK_ADDR_BITS_eq: "TXNTRK_ADDR_BITS = 63"
  by (simp add: TXNTRK_ADDR_BITS_def TXNTRK_TYPE_BITS_def)

lemma and_addr_mask_id:
  fixes p :: "64 word"
  assumes "\<not> bit p 63"
  shows "p AND mask 63 = p"
proof (rule bit_word_eqI)
  fix n assume "n < LENGTH(64)"
  then show "bit (p AND mask 63) n = bit p n"
    using assms by (cases "n = 63") (auto simp: bit_simps)
qed

lemma and_not_addr_mask:
  fixes p :: "64 word"
  assumes "\<not> bit p 63"
  shows "p AND NOT (mask 63) = 0"
proof (rule bit_word_eqI)
  fix n assume "n < LENGTH(64)"
  then show "bit (p AND NOT (mask 63)) n = bit (0 :: 64 word) n"
    using assms by (cases "n = 63") (auto simp: bit_simps)
qed

lemma tag_low_bits:
  fixes p :: "64 word"
  assumes "\<not> bit p 63"
  shows "(push_bit 63 w OR p) AND mask 63 = p"
proof (rule bit_word_eqI)
  fix n assume "n < LENGTH(64)"
  then show "bit ((push_bit 63 w OR p) AND mask 63) n = bit p n"
    using assms by (cases "n = 63") (auto simp: bit_simps)
qed

lemma tag_top_bit:
  fixes p :: "64 word"
  assumes "\<not> bit p 63"
  shows "drop_bit 63 (push_bit 63 w OR p) AND 1 = w AND 1"
proof (rule bit_word_eqI)
  fix n assume "n < LENGTH(64)"
  then show "bit (drop_bit 63 (push_bit 63 w OR p) AND 1) n = bit (w AND 1) n"
    using assms by (cases "n = 0") (auto simp: bit_simps)
qed

lemma txnTrkType_of_val: "txnTrkType_of (txnTrkType_val t AND 1) = t"
  by (cases t) (simp_all add: txnTrkType_of_def)

lemma txnTrkEncode_value:
  fixes p :: "64 word"
  assumes "\<not> bit p 63"
  shows "txnTrkEncode t p = Some (push_bit 63 (txnTrkType_val t) OR p)"
  using assms
  by (simp add: txnTrkEncode_def txnTrkTypeCount_def TXNTRK_TYPE_MASK_eq TXNTRK_ADDR_MASK_eq
      TXNTRK_ADDR_BITS_def TXNTRK_TYPE_BITS_def and_addr_mask_id and_not_addr_mask)

lemma tag_bit_63:
  fixes p :: "64 word"
  assumes "\<not> bit p 63"
  shows "bit (push_bit 63 (txnTrkType_val t) OR p) 63 = (t = txnTrkDone)"
  using assms by (cases t) (simp_all add: bit_simps)

text \<open>
  Claim C9.  For either variant \<open>t\<close> and every 64-bit payload \<open>p\<close> whose top bit is clear,
  \<^verbatim>\<open>txnTrkEncode\<close> passes its assertions and \<^verbatim>\<open>txnTrkDecode\<close> gives back exactly
  \<open>(t, p)\<close>; the variant sits in bit 63 of the encoded word and the payload in its low
  63 bits.
\<close>

theorem txnTrk_roundtrip:
  fixes p :: "64 word"
  assumes "\<not> bit p 63"
  shows "\<exists>c. txnTrkEncode t p = Some c
           \<and> txnTrkDecode c = \<lparr> trk_typ = t, trk_ptr = p \<rparr>
           \<and> bit c 63 = (t = txnTrkDone)
           \<and> take_bit 63 c = p"
proof -
  let ?c = "push_bit 63 (txnTrkType_val t) OR p"
  have enc: "txnTrkEncode t p = Some ?c"
    using assms by (rule txnTrkEncode_value)
  have typ_field: "txnTrkType_of (drop_bit TXNTRK_ADDR_BITS ?c AND TXNTRK_TYPE_MASK) = t"
    unfolding TXNTRK_TYPE_MASK_eq TXNTRK_ADDR_BITS_eq
    using tag_top_bit [OF assms, of "txnTrkType_val t"] by (simp only: txnTrkType_of_val)
  have ptr_field: "?c AND TXNTRK_ADDR_MASK = p"
    unfolding TXNTRK_ADDR_MASK_eq using assms by (rule tag_low_bits)
  have dec: "txnTrkDecode ?c = \<lparr> trk_typ = t, trk_ptr = p \<rparr>"
    unfolding txnTrkDecode_def using typ_field ptr_field by (simp only:)
  have top: "bit ?c 63 = (t = txnTrkDone)"
    using assms by (rule tag_bit_63)
  have low: "take_bit 63 ?c = p"
    using assms by (simp add: take_bit_eq_mask tag_low_bits)
  from enc dec top low show ?thesis by blast
qed

theorem txnTrk_roundtrip_witness:
  "\<not> bit (4096 :: 64 word) 63
   \<and> (\<exists>c. txnTrkEncode txnTrkDone 4096 = Some c
           \<and> txnTrkDecode c = \<lparr> trk_typ = txnTrkDone, trk_ptr = 4096 \<rparr>
           \<and> bit c 63 = (txnTrkDone = txnTrkDone)
           \<and> take_bit 63 c = 4096)"
proof -
  have h: "\<not> bit (4096 :: 64 word) 63" by (simp add: bit_iff_odd_drop_bit drop_bit_eq_div)
  show ?thesis using h txnTrk_roundtrip [OF h, of txnTrkDone] by simp
qed

declare findFree_scan.simps [simp del]

section \<open>The search for a free transmit context\<close>

lemma scan_order_step: "Suc iw < n \<Longrightarrow> scan_order n iw = Suc iw # scan_order n (Suc iw)"
  by (simp add: scan_order_def upt_conv_Cons)

lemma scan_order_last: "\<not> Suc iw < n \<Longrightarrow> scan_order n iw = [0]"
  by (simp add: scan_order_def)

lemma scan_order_covers:
  assumes "0 < n"
  shows "set (scan_order n last_iw) = {0..<n}" and "distinct (scan_order n last_iw)"
    and "length (scan_order n last_iw) = n"
  using assms by (auto simp: scan_order_def last_iw_def)

lemma findFree_scan_None:
  "findFree_scan oth n iw ab k tab = (None, ab', k', tab', ps)
   \<Longrightarrow> map fst ps = scan_order n iw \<and> (\<forall>p \<in> set ps. snd (snd p))
       \<and> ab' = (ab \<and> (\<forall>p \<in> set ps. fst (snd p)))"
proof (induction oth n iw ab k tab arbitrary: ab' k' tab' ps rule: findFree_scan.induct)
  case (1 oth n iw allBound k tab)
  show ?case
  proof (cases "Suc iw < n")
    case False
    with "1.prems" show ?thesis
      by (subst (asm) findFree_scan.simps)
         (auto simp: Let_def last_iw_def scan_order_last split: if_splits)
  next
    case True
    let ?tab1 = "oth k tab"
    let ?ab = "allBound \<and> bound (?tab1 (Suc iw))"
    let ?tab2 = "oth (k + 1) ?tab1"
    let ?old = "allocated (?tab2 (Suc iw))"
    let ?tab3 = "?tab2(Suc iw := (?tab2 (Suc iw))\<lparr> allocated := True \<rparr>)"
    from True "1.prems" have old: "?old"
      by (subst (asm) findFree_scan.simps) (auto simp: Let_def last_iw_def split: if_splits)
    from True "1.prems" old obtain ps' where
      rec: "findFree_scan oth n (Suc iw) ?ab (k + 2) ?tab3 = (None, ab', k', tab', ps')"
      and ps: "ps = (Suc iw, ?ab, ?old) # ps'"
      by (subst (asm) findFree_scan.simps)
         (auto simp: Let_def last_iw_def split: if_splits prod.splits)
    have "map fst ps' = scan_order n (Suc iw) \<and> (\<forall>p \<in> set ps'. snd (snd p))
       \<and> ab' = (?ab \<and> (\<forall>p \<in> set ps'. fst (snd p)))"
      using True old rec
      by (intro "1.IH"[where x = "Suc iw" and xb = "?ab"]) (auto simp: last_iw_def)
    with True old ps show ?thesis
      by (auto simp: scan_order_step)
  qed
qed

lemma findFree_scan_Some:
  "findFree_scan oth n iw ab k tab = (Some i, ab', k', tab', ps)
   \<Longrightarrow> scan_claimed i ps \<and> allocated (tab' i) \<and> (i < n \<or> i = 0)"
proof (induction oth n iw ab k tab arbitrary: ab' k' tab' ps rule: findFree_scan.induct)
  case (1 oth n iw allBound k tab)
  show ?case
  proof (cases "Suc iw < n")
    case False
    with "1.prems" show ?thesis
      by (subst (asm) findFree_scan.simps)
         (auto simp: Let_def last_iw_def scan_claimed_def split: if_splits)
  next
    case True
    let ?tab1 = "oth k tab"
    let ?ab = "allBound \<and> bound (?tab1 (Suc iw))"
    let ?tab2 = "oth (k + 1) ?tab1"
    let ?old = "allocated (?tab2 (Suc iw))"
    let ?tab3 = "?tab2(Suc iw := (?tab2 (Suc iw))\<lparr> allocated := True \<rparr>)"
    show ?thesis
    proof (cases ?old)
      case False
      with True "1.prems" show ?thesis
        by (subst (asm) findFree_scan.simps)
           (auto simp: Let_def last_iw_def scan_claimed_def split: if_splits)
    next
      case old: True
      from True "1.prems" old obtain ps' where
        rec: "findFree_scan oth n (Suc iw) ?ab (k + 2) ?tab3 = (Some i, ab', k', tab', ps')"
        and ps: "ps = (Suc iw, ?ab, ?old) # ps'"
        by (subst (asm) findFree_scan.simps)
           (auto simp: Let_def last_iw_def split: if_splits prod.splits)
      have "scan_claimed i ps' \<and> allocated (tab' i) \<and> (i < n \<or> i = 0)"
        using True old rec
        by (intro "1.IH"[where x = "Suc iw" and xb = "?ab"]) (auto simp: last_iw_def)
      with True old ps show ?thesis
        by (auto simp: scan_claimed_def)
    qed
  qed
qed

lemma findFree_worker_history:
  "findFree_worker fuel oth n k tab = (res, k', tab', h)
   \<Longrightarrow> (\<forall>ps \<in> set (if res = StillSearching then h else butlast h).
          scan_failed n ps \<and> \<not> saw_all_bound ps)
     \<and> (res = StillSearching \<longrightarrow> length h = fuel)
     \<and> (res = AllBound \<longrightarrow> h \<noteq> [] \<and> scan_failed n (last h) \<and> saw_all_bound (last h))
     \<and> (\<forall>i. res = Found i \<longrightarrow>
            h \<noteq> [] \<and> scan_claimed i (last h) \<and> allocated (tab' i) \<and> (i < n \<or> i = 0))"
proof (induction fuel arbitrary: k tab res k' tab' h)
  case 0
  then show ?case by simp
next
  case (Suc f)
  obtain r ab k1 tab1 ps where
    scan: "findFree_scan oth n last_iw True k tab = (r, ab, k1, tab1, ps)"
    by (metis prod_cases5)
  show ?case
  proof (cases r)
    case (Some i)
    with scan Suc.prems have "res = Found i" "tab' = tab1" "h = [ps]"
      by auto
    with findFree_scan_Some [OF scan [unfolded Some]] show ?thesis
      by simp
  next
    case None
    note facts = findFree_scan_None [OF scan [unfolded None]]
    show ?thesis
    proof (cases ab)
      case True
      with None scan Suc.prems have "res = AllBound" "h = [ps]"
        by auto
      with facts True show ?thesis
        by (simp add: scan_failed_def saw_all_bound_def)
    next
      case False
      obtain r2 k2 tab2 h2 where
        rec: "findFree_worker f oth n k1 tab1 = (r2, k2, tab2, h2)"
        by (metis prod_cases4)
      with None False scan Suc.prems have eqs: "res = r2" "tab' = tab2" "h = ps # h2"
        by auto
      have this_scan: "scan_failed n ps \<and> \<not> saw_all_bound ps"
        using facts False by (simp add: scan_failed_def saw_all_bound_def)
      note ih = Suc.IH [OF rec]
      show ?thesis
        using ih this_scan unfolding eqs
        by (cases r2; cases h2) (auto)
    qed
  qed
qed


lemma record_allocated_upd_same:
  "allocated (e :: perTxCtxInfo_t) \<Longrightarrow> e\<lparr> allocated := True \<rparr> = e"
  by simp

lemma findFree_scan_quiet_None:
  "findFree_scan oth n iw ab k tab = (None, ab', k', tab', ps)
   \<Longrightarrow> \<forall>j t. oth j t = t
   \<Longrightarrow> tab' = tab \<and> (\<forall>i \<in> set (scan_order n iw). allocated (tab i))
       \<and> ab' = (ab \<and> (\<forall>i \<in> set (scan_order n iw). bound (tab i)))"
proof (induction oth n iw ab k tab arbitrary: ab' k' tab' ps rule: findFree_scan.induct)
  case (1 oth n iw allBound k tab)
  note quiet = "1.prems"(2)
  note run = "1.prems"(1)
  have e: "oth k tab = tab" "oth (k + 1) tab = tab" "oth (Suc k) tab = tab"
    using quiet by simp_all
  show ?case
  proof (cases "Suc iw < n")
    case False
    with run show ?thesis
      by (subst (asm) findFree_scan.simps)
         (auto simp: Let_def last_iw_def scan_order_last e split: if_splits)
  next
    case True
    let ?ab = "allBound \<and> bound (tab (Suc iw))"
    from True run have old: "allocated (tab (Suc iw))"
      by (subst (asm) findFree_scan.simps) (auto simp: Let_def last_iw_def e split: if_splits)
    then have same: "tab(Suc iw := (tab (Suc iw))\<lparr> allocated := True \<rparr>) = tab"
      by (simp add: fun_upd_idem)
    from True run old same obtain ps' where
      rec: "findFree_scan oth n (Suc iw) ?ab (k + 2) tab = (None, ab', k', tab', ps')"
      by (subst (asm) findFree_scan.simps)
         (auto simp: Let_def last_iw_def e split: if_splits prod.splits)
    let ?t3 = "(oth (k + 1) (oth k tab))(Suc iw := (oth (k + 1) (oth k tab) (Suc iw))\<lparr>allocated := True\<rparr>)"
    have t3: "?t3 = tab" using same by (simp add: e)
    have "tab' = ?t3 \<and> (\<forall>i \<in> set (scan_order n (Suc iw)). allocated (?t3 i))
       \<and> ab' = (?ab \<and> (\<forall>i \<in> set (scan_order n (Suc iw)). bound (?t3 i)))"
    proof (rule "1.IH"[where x = "Suc iw" and xb = "?ab", OF _ refl _ refl refl refl _ _ quiet])
      show "Suc iw = (if n \<le> iw + 1 then 0 else iw + 1)" using True by simp
      show "?ab = (allBound \<and> bound (oth k tab (Suc iw)))" by (simp add: e)
      show "allocated (oth (k + 1) (oth k tab) (Suc iw)) \<and> Suc iw \<noteq> last_iw"
        using old by (simp add: e last_iw_def)
      show "findFree_scan oth n (Suc iw) ?ab (k + 2) ?t3 = (None, ab', k', tab', ps')"
        using rec unfolding t3 .
    qed
    then have "tab' = tab \<and> (\<forall>i \<in> set (scan_order n (Suc iw)). allocated (tab i))
       \<and> ab' = (?ab \<and> (\<forall>i \<in> set (scan_order n (Suc iw)). bound (tab i)))"
      unfolding t3 .
    then show ?thesis
      using True old by (auto simp: scan_order_step)
  qed
qed

lemma findFree_scan_quiet_Some:
  "findFree_scan oth n iw ab k tab = (Some i, ab', k', tab', ps)
   \<Longrightarrow> \<forall>j t. oth j t = t
   \<Longrightarrow> \<not> allocated (tab i) \<and> tab' = tab(i := (tab i)\<lparr> allocated := True \<rparr>)"
proof (induction oth n iw ab k tab arbitrary: ab' k' tab' ps rule: findFree_scan.induct)
  case (1 oth n iw allBound k tab)
  note quiet = "1.prems"(2)
  note run = "1.prems"(1)
  have e: "oth k tab = tab" "oth (k + 1) tab = tab" "oth (Suc k) tab = tab"
    using quiet by simp_all
  show ?case
  proof (cases "Suc iw < n \<and> allocated (tab (Suc iw))")
    case False
    with run show ?thesis
      by (subst (asm) findFree_scan.simps)
         (auto simp: Let_def last_iw_def e split: if_splits)
  next
    case True
    let ?ab = "allBound \<and> bound (tab (Suc iw))"
    from True have same: "tab(Suc iw := (tab (Suc iw))\<lparr> allocated := True \<rparr>) = tab"
      by (simp add: fun_upd_idem)
    from True run same obtain ps' where
      rec: "findFree_scan oth n (Suc iw) ?ab (k + 2) tab = (Some i, ab', k', tab', ps')"
      by (subst (asm) findFree_scan.simps)
         (auto simp: Let_def last_iw_def e split: if_splits prod.splits)
    let ?t3 = "(oth (k + 1) (oth k tab))(Suc iw := (oth (k + 1) (oth k tab) (Suc iw))\<lparr>allocated := True\<rparr>)"
    have t3: "?t3 = tab" using same by (simp add: e)
    have "\<not> allocated (?t3 i) \<and> tab' = ?t3(i := (?t3 i)\<lparr> allocated := True \<rparr>)"
    proof (rule "1.IH"[where x = "Suc iw" and xb = "?ab", OF _ refl _ refl refl refl _ _ quiet])
      show "Suc iw = (if n \<le> iw + 1 then 0 else iw + 1)" using True by simp
      show "?ab = (allBound \<and> bound (oth k tab (Suc iw)))" by (simp add: e)
      show "allocated (oth (k + 1) (oth k tab) (Suc iw)) \<and> Suc iw \<noteq> last_iw"
        using True by (simp add: e last_iw_def)
      show "findFree_scan oth n (Suc iw) ?ab (k + 2) ?t3 = (Some i, ab', k', tab', ps')"
        using rec unfolding t3 .
    qed
    then show ?thesis unfolding t3 .
  qed
qed

text \<open>With no other thread at work the probes are the table.\<close>

lemma findFree_worker_quiet_stuck:
  assumes "0 < n" and quiet: "\<forall>j t. oth j t = t"
    and full: "\<forall>i < n. allocated (tab i)" and unbound: "\<exists>i < n. \<not> bound (tab i)"
  shows "\<exists>k' h. findFree_worker f oth n k tab = (StillSearching, k', tab, h)"
proof (induction f arbitrary: k)
  case 0
  show ?case by simp
next
  case (Suc f)
  have cover: "set (scan_order n last_iw) = {0..<n}"
    using assms(1) by (rule scan_order_covers)
  obtain r ab k1 tab1 ps where
    scan: "findFree_scan oth n last_iw True k tab = (r, ab, k1, tab1, ps)"
    by (metis prod_cases5)
  have r: "r = None"
  proof (cases r)
    case (Some i)
    have "\<not> allocated (tab i)"
      using findFree_scan_quiet_Some [OF scan [unfolded Some] quiet] by simp
    moreover have "i < n"
      using findFree_scan_Some [OF scan [unfolded Some]] assms(1) by auto
    ultimately show ?thesis using full by simp
  qed simp
  note facts = findFree_scan_quiet_None [OF scan [unfolded r] quiet, unfolded cover]
  from facts unbound have ab: "\<not> ab" by auto
  from facts have tab1: "tab1 = tab" by simp
  from Suc.IH [of k1] obtain k' h where
    "findFree_worker f oth n k1 tab = (StillSearching, k', tab, h)" by blast
  with scan r ab tab1 show ?case by simp
qed

lemma findFree_worker_quiet:
  assumes "0 < n" and quiet: "\<forall>j t. oth j t = t"
    and run: "findFree_worker (Suc f) oth n k tab = (res, k', tab', h)"
  shows "(res = AllBound \<longrightarrow> (\<forall>i < n. bound (tab i) \<and> allocated (tab i)))
       \<and> (\<forall>i. res = Found i \<longrightarrow> i < n \<and> \<not> allocated (tab i))
       \<and> (res = StillSearching \<longrightarrow> (\<forall>i < n. allocated (tab i)) \<and> (\<exists>i < n. \<not> bound (tab i)))"
proof -
  obtain r ab k1 tab1 ps where
    scan: "findFree_scan oth n last_iw True k tab = (r, ab, k1, tab1, ps)"
    by (metis prod_cases5)
  have cover: "set (scan_order n last_iw) = {0..<n}"
    using assms(1) by (rule scan_order_covers)
  show ?thesis
  proof (cases r)
    case (Some i)
    with scan run have "res = Found i" by auto
    moreover have "\<not> allocated (tab i)"
      using findFree_scan_quiet_Some [OF scan [unfolded Some] quiet] by simp
    moreover have "i < n"
      using findFree_scan_Some [OF scan [unfolded Some]] assms(1) by auto
    ultimately show ?thesis by simp
  next
    case None
    note facts = findFree_scan_quiet_None [OF scan [unfolded None] quiet, unfolded cover]
    show ?thesis
    proof (cases ab)
      case True
      with None scan run have "res = AllBound" by auto
      with facts True show ?thesis by auto
    next
      case False
      from facts have tab1: "tab1 = tab" by simp
      from facts False have full: "\<forall>i < n. allocated (tab i)" and unb: "\<exists>i < n. \<not> bound (tab i)"
        by auto
      obtain k2 h2 where
        "findFree_worker f oth n k1 tab = (StillSearching, k2, tab, h2)"
        using findFree_worker_quiet_stuck [OF assms(1) quiet full unb] by blast
      with None False scan run tab1 have "res = StillSearching" by auto
      with full unb show ?thesis by simp
    qed
  qed
qed





section \<open>Bound contexts stay allocated\<close>

lemma pinned_exchange:
  "pinned tab i \<Longrightarrow> pinned (tab(j := (tab j)\<lparr> allocated := True \<rparr>)) i"
  by (auto simp: pinned_def)

lemma findFree_scan_pinned:
  "findFree_scan oth n iw ab k tab = (r, ab', k', tab', ps)
   \<Longrightarrow> \<forall>j t. pinned t i \<longrightarrow> pinned (oth j t) i
   \<Longrightarrow> pinned tab i \<Longrightarrow> pinned tab' i"
proof (induction oth n iw ab k tab arbitrary: r ab' k' tab' ps rule: findFree_scan.induct)
  case (1 oth n iw allBound k tab)
  note run = "1.prems"(1) and keep = "1.prems"(2) and pin = "1.prems"(3)
  let ?iw = "if iw + 1 \<ge> n then 0 else iw + 1"
  let ?tab1 = "oth k tab"
  let ?ab = "allBound \<and> bound (?tab1 ?iw)"
  let ?tab2 = "oth (k + 1) ?tab1"
  let ?old = "allocated (?tab2 ?iw)"
  let ?tab3 = "?tab2(?iw := (?tab2 ?iw)\<lparr> allocated := True \<rparr>)"
  have pin3: "pinned ?tab3 i"
    using keep pin by (intro pinned_exchange) blast
  show ?case
  proof (cases "?old \<and> ?iw \<noteq> last_iw")
    case False
    with run have eq: "tab' = ?tab3"
      by (subst (asm) findFree_scan.simps) (auto simp: Let_def split: if_splits)
    show ?thesis unfolding eq by (rule pin3)
  next
    case True
    with run obtain r2 ps' where
      rec: "findFree_scan oth n ?iw ?ab (k + 2) ?tab3 = (r2, ab', k', tab', ps')"
      by (subst (asm) findFree_scan.simps) (auto simp: Let_def split: if_splits prod.splits)
    show ?thesis
      by (rule "1.IH"[OF refl refl refl refl refl refl True rec keep pin3])
  qed
qed

lemma findFree_worker_pinned:
  "findFree_worker fuel oth n k tab = (res, k', tab', h)
   \<Longrightarrow> \<forall>j t. pinned t i \<longrightarrow> pinned (oth j t) i
   \<Longrightarrow> pinned tab i \<Longrightarrow> pinned tab' i"
proof (induction fuel arbitrary: k tab res k' tab' h)
  case 0
  then show ?case by simp
next
  case (Suc f)
  obtain r ab k1 tab1 ps where
    scan: "findFree_scan oth n last_iw True k tab = (r, ab, k1, tab1, ps)"
    by (metis prod_cases5)
  have pin1: "pinned tab1 i"
    using findFree_scan_pinned [OF scan Suc.prems(2) Suc.prems(3)] .
  show ?case
  proof (cases "r = None \<and> \<not> ab")
    case False
    with scan Suc.prems(1) have "tab' = tab1"
      by (cases r) (auto split: if_splits)
    with pin1 show ?thesis by simp
  next
    case True
    obtain r2 k2 tab2 h2 where
      rec: "findFree_worker f oth n k1 tab1 = (r2, k2, tab2, h2)"
      by (metis prod_cases4)
    with True scan Suc.prems(1) have "tab' = tab2" by auto
    with Suc.IH [OF rec Suc.prems(2) pin1] show ?thesis by simp
  qed
qed

lemma findFreeTciTabEntry_pinned:
  assumes "findFreeTciTabEntry fuel cfg b st = Ret (t, st')"
    and "others_keep_pinned cfg i" and "pinned (tciTab st) i"
  shows "pinned (tciTab st') i"
proof (cases b)
  case True
  with assms show ?thesis
    by (auto simp: findFreeTciTabEntry_def Let_def CHK_FALSE_def others_keep_pinned_def
        pinned_exchange split: if_splits)
next
  case False
  obtain res k' tab' h where
    run: "findFree_worker fuel (others cfg) (tciTabLen cfg - numAmHandlers cfg) (clock st) (tciTab st)
            = (res, k', tab', h)"
    by (metis prod_cases4)
  from assms(2) have keep: "\<forall>j t. pinned t i \<longrightarrow> pinned (others cfg j t) i"
    by (simp add: others_keep_pinned_def)
  have "pinned tab' i"
    using findFree_worker_pinned [OF run keep assms(3)] .
  moreover from False run assms(1) have "tciTab st' = tab'"
    by (cases res) (auto simp: findFreeTciTabEntry_def Let_def)
  ultimately show ?thesis by simp
qed

lemma findFreeTciTabEntry_allocated:
  assumes "findFreeTciTabEntry fuel cfg b st = Ret (t, st')"
  shows "allocated (tciTab st' t)"
proof (cases b)
  case True
  with assms show ?thesis
    by (auto simp: findFreeTciTabEntry_def Let_def CHK_FALSE_def split: if_splits)
next
  case False
  obtain res k' tab' h where
    run: "findFree_worker fuel (others cfg) (tciTabLen cfg - numAmHandlers cfg) (clock st) (tciTab st)
            = (res, k', tab', h)"
    by (metis prod_cases4)
  from False run assms have "res = Found t" "tciTab st' = tab'"
    by (cases res; auto simp: findFreeTciTabEntry_def Let_def)+
  with findFree_worker_history [OF run] show ?thesis by simp
qed

lemma tciAlloc_find_pinned:
  assumes "tciAlloc_find fuel cfg b st = Ret (t, st')"
    and "others_keep_pinned cfg i" and "pinned (tciTab st) i"
  shows "pinned (tciTab st') i"
proof -
  from assms(1) obtain st1 where
    f: "findFreeTciTabEntry fuel cfg b st = Ret (t, st1)"
    and st': "st' = (if b \<or> (tciTabFixedAssignments cfg \<and> isFixedThread cfg)
                     then upd_tci t (\<lambda>e. e\<lparr> bound := True \<rparr>) (st1\<lparr> ttcip := Some t \<rparr>)
                     else st1\<lparr> ttcip := Some t \<rparr>)"
    by (auto simp: tciAlloc_find_def obind_def Let_def split: outcome.splits)
  have "pinned (tciTab st1) i"
    using findFreeTciTabEntry_pinned [OF f assms(2) assms(3)] .
  then show ?thesis
    unfolding st' by (auto simp: upd_tci_def pinned_def)
qed

lemma tciAlloc_find_binds:
  assumes "tciAlloc_find fuel cfg b st = Ret (t, st')"
    and "b \<or> (tciTabFixedAssignments cfg \<and> isFixedThread cfg)"
  shows "pinned (tciTab st') t \<and> ttcip st' = Some t"
proof -
  from assms obtain st1 where
    f: "findFreeTciTabEntry fuel cfg b st = Ret (t, st1)"
    and st': "st' = upd_tci t (\<lambda>e. e\<lparr> bound := True \<rparr>) (st1\<lparr> ttcip := Some t \<rparr>)"
    by (auto simp: tciAlloc_find_def obind_def Let_def split: outcome.splits)
  from findFreeTciTabEntry_allocated [OF f] show ?thesis
    unfolding st' by (simp add: upd_tci_def pinned_def)
qed

lemma tciAllocCommon_pinned:
  assumes "tciAllocCommon fuel cfg b st = Ret (t, st')"
    and "others_keep_pinned cfg i" and "pinned (tciTab st) i"
  shows "pinned (tciTab st') i"
proof (cases "ttcip st")
  case None
  with assms(1) have "tciAlloc_find fuel cfg b st = Ret (t, st')"
    by (simp add: tciAllocCommon_def)
  then show ?thesis using assms(2,3) by (rule tciAlloc_find_pinned)
next
  case (Some c)
  show ?thesis
  proof (cases "bound (tciTab st c)")
    case True
    with Some assms(1) have "st' = st" by (simp add: tciAllocCommon_def)
    with assms(3) show ?thesis by simp
  next
    case False
    let ?tab1 = "others cfg (clock st) (tciTab st)"
    let ?st1 = "st\<lparr> tciTab := ?tab1(c := (?tab1 c)\<lparr> allocated := True \<rparr>), clock := clock st + 1 \<rparr>"
    have pin1: "pinned (tciTab ?st1) i"
      using assms(2,3) by (simp add: others_keep_pinned_def pinned_exchange)
    show ?thesis
    proof (cases "allocated (?tab1 c)")
      case F: False
      with Some False assms(1) have eq: "st' = ?st1"
        by (auto simp: tciAllocCommon_def Let_def)
      show ?thesis unfolding eq by (rule pin1)
    next
      case True
      with Some False assms(1) have "tciAlloc_find fuel cfg b ?st1 = Ret (t, st')"
        by (simp add: tciAllocCommon_def Let_def)
      then show ?thesis using assms(2) pin1 by (rule tciAlloc_find_pinned)
    qed
  qed
qed

text \<open>
  Claim C6.  \<^verbatim>\<open>tciFree\<close> leaves a bound context as it is and clears \<^verbatim>\<open>allocated\<close>
  only when \<^verbatim>\<open>bound\<close> is false; an entry that is bound and allocated is still bound and
  allocated after any \<^verbatim>\<open>tciFree\<close> and after any \<^verbatim>\<open>tciAllocCommon\<close> of this thread
  (the other threads, which run the same code, being taken to leave such an entry alone);
  a context that \<^verbatim>\<open>tciAllocCommon\<close> binds is allocated; and a thread whose cached
  context is bound gets it back with the state unchanged: no exchange on \<^verbatim>\<open>allocated\<close>
  is made.
\<close>

theorem bound_context_never_released:
  "(bound (tciTab st t) \<longrightarrow> tciFree t st = st)
   \<and> (\<not> bound (tciTab st t) \<longrightarrow>
        tciFree t st = st\<lparr> tciTab := (tciTab st)(t := (tciTab st t)\<lparr> allocated := False \<rparr>) \<rparr>)
   \<and> (pinned (tciTab st) i \<longrightarrow> pinned (tciTab (tciFree t st)) i)
   \<and> (others_keep_pinned cfg i \<and> pinned (tciTab st) i
        \<and> tciAllocCommon fuel cfg b st = Ret (t', st') \<longrightarrow> pinned (tciTab st') i)
   \<and> (ttcip st = None \<and> (b \<or> (tciTabFixedAssignments cfg \<and> isFixedThread cfg))
        \<and> tciAllocCommon fuel cfg b st = Ret (t', st')
        \<longrightarrow> pinned (tciTab st') t' \<and> ttcip st' = Some t')
   \<and> (ttcip st = Some t \<and> bound (tciTab st t) \<longrightarrow> tciAllocCommon fuel cfg b st = Ret (t, st))"
proof (intro conjI impI)
  show "tciFree t st = st" if "bound (tciTab st t)"
    using that by (simp add: tciFree_def)
  show "tciFree t st = st\<lparr> tciTab := (tciTab st)(t := (tciTab st t)\<lparr> allocated := False \<rparr>) \<rparr>"
    if "\<not> bound (tciTab st t)"
    using that by (simp add: tciFree_def upd_tci_def)
  show "pinned (tciTab (tciFree t st)) i" if "pinned (tciTab st) i"
    using that by (auto simp: tciFree_def upd_tci_def pinned_def)
  show "pinned (tciTab st') i"
    if "others_keep_pinned cfg i \<and> pinned (tciTab st) i \<and> tciAllocCommon fuel cfg b st = Ret (t', st')"
    using that tciAllocCommon_pinned by blast
  show "pinned (tciTab st') t'" "ttcip st' = Some t'"
    if "ttcip st = None \<and> (b \<or> (tciTabFixedAssignments cfg \<and> isFixedThread cfg))
        \<and> tciAllocCommon fuel cfg b st = Ret (t', st')"
    using that tciAlloc_find_binds [of fuel cfg b st t' st'] by (auto simp: tciAllocCommon_def)
  show "tciAllocCommon fuel cfg b st = Ret (t, st)" if "ttcip st = Some t \<and> bound (tciTab st t)"
    using that by (simp add: tciAllocCommon_def)
qed


theorem bound_context_never_released_witness:
  "bound (tciTab ((ex_state True True)\<lparr> ttcip := Some 0 \<rparr>) 0)
   \<and> tciFree 0 ((ex_state True True)\<lparr> ttcip := Some 0 \<rparr>) = (ex_state True True)\<lparr> ttcip := Some 0 \<rparr>
   \<and> pinned (tciTab (tciFree 0 ((ex_state True True)\<lparr> ttcip := Some 0 \<rparr>))) 0
   \<and> others_keep_pinned ex_cfg 0
   \<and> tciAllocCommon 1 ex_cfg False ((ex_state True True)\<lparr> ttcip := Some 0 \<rparr>)
       = Ret (0, (ex_state True True)\<lparr> ttcip := Some 0 \<rparr>)
   \<and> \<not> bound (tciTab (ex_state True False) 1)
   \<and> \<not> allocated (tciTab (tciFree 1 (ex_state True False)) 1)
   \<and> ttcip (ex_state False False) = None
   \<and> (\<exists>st'. tciAllocCommon 1 ex_cfg True (ex_state False False) = Ret (2, st')
             \<and> pinned (tciTab st') 2 \<and> ttcip st' = Some 2)"
  using bound_context_never_released
      [of "(ex_state True True)\<lparr> ttcip := Some 0 \<rparr>" 0 0 ex_cfg 1 False 0
          "(ex_state True True)\<lparr> ttcip := Some 0 \<rparr>"]
    bound_context_never_released [of "ex_state True False" 1 1 ex_cfg 1 False 1 "ex_state True False"]
    bound_context_never_released [of "ex_state False False" 2 2 ex_cfg 1 True 2]
  by (simp add: ex_cfg_def ex_state_def ex_tci_def pinned_def others_keep_pinned_def
      tciAllocCommon_def tciAlloc_find_def findFreeTciTabEntry_def CHK_FALSE_def obind_def
      upd_tci_def Let_def)


section \<open>What the calls add to the trace\<close>

lemma trace_grows_refl [simp]: "trace_grows P st st"
  by (simp add: trace_grows_def)

lemma trace_grows_trans:
  "trace_grows P st st1 \<Longrightarrow> trace_grows P st1 st2 \<Longrightarrow> trace_grows P st st2"
  by (auto simp: trace_grows_def)

lemma trace_grows_same:
  "trace st' = trace st \<Longrightarrow> trace_grows P st st'"
  by (simp add: trace_grows_def)

lemma trace_grows_emit:
  "\<forall>e \<in> set es. P e \<Longrightarrow> trace_grows P st (emit es st)"
  by (auto simp: trace_grows_def emit_def)

lemma trace_grows_mono:
  "trace_grows P st st' \<Longrightarrow> (\<And>e. P e \<Longrightarrow> Q e) \<Longrightarrow> trace_grows Q st st'"
  by (auto simp: trace_grows_def)

lemma trace_upd_tci [simp]: "trace (upd_tci t f st) = trace st"
  by (simp add: upd_tci_def)

lemma trace_tciFree [simp]: "trace (tciFree t st) = trace st"
  by (simp add: tciFree_def)

lemma trace_release_tcip [simp]: "trace (release_tcip tcip t st) = trace st"
  by (simp add: release_tcip_def)

lemma trace_incr [simp]:
  "trace (incr_numTxnsOut t st) = trace st" "trace (incr_numTxnsSent t st) = trace st"
  by (simp_all add: incr_numTxnsOut_def incr_numTxnsSent_def)

lemma trace_emit [simp]: "trace (emit es st) = trace st @ es"
  by (simp add: emit_def)

lemma obind_RetE:
  assumes "obind m f = Ret y"
  obtains x where "m = Ret x" and "f x = Ret y"
  using assms by (cases m) (simp_all add: obind_def)

lemma findFreeTciTabEntry_trace:
  "findFreeTciTabEntry fuel cfg b st = Ret (t, st') \<Longrightarrow> trace_grows is_mcm_event st st'"
proof (cases b)
  case True
  assume "findFreeTciTabEntry fuel cfg b st = Ret (t, st')"
  with True have "trace st' = trace st"
    by (auto simp: findFreeTciTabEntry_def Let_def CHK_FALSE_def split: if_splits)
  then show ?thesis by (rule trace_grows_same)
next
  case False
  assume run: "findFreeTciTabEntry fuel cfg b st = Ret (t, st')"
  obtain res k' tab' h where
    w: "findFree_worker fuel (others cfg) (tciTabLen cfg - numAmHandlers cfg) (clock st) (tciTab st)
            = (res, k', tab', h)"
    by (metis prod_cases4)
  with False run have "trace st' = trace st @ replicate (length h - 1) Local_yield"
    by (cases res) (auto simp: findFreeTciTabEntry_def Let_def)
  then show ?thesis
    by (auto simp: trace_grows_def is_mcm_event_def)
qed

lemma tciAlloc_find_trace:
  assumes "tciAlloc_find fuel cfg b st = Ret (t, st')"
  shows "trace_grows is_mcm_event st st'"
proof -
  from assms obtain st1 where
    f: "findFreeTciTabEntry fuel cfg b st = Ret (t, st1)" and "trace st' = trace st1"
    by (auto simp: tciAlloc_find_def obind_def Let_def split: outcome.splits if_splits)
  with findFreeTciTabEntry_trace [OF f] show ?thesis
    by (simp add: trace_grows_def)
qed

lemma tciAllocCommon_trace:
  assumes "tciAllocCommon fuel cfg b st = Ret (t, st')"
  shows "trace_grows is_mcm_event st st'"
proof (cases "ttcip st")
  case None
  with assms show ?thesis by (simp add: tciAllocCommon_def tciAlloc_find_trace)
next
  case (Some c)
  let ?tab1 = "others cfg (clock st) (tciTab st)"
  let ?st1 = "st\<lparr> tciTab := ?tab1(c := (?tab1 c)\<lparr> allocated := True \<rparr>), clock := clock st + 1 \<rparr>"
  have g1: "trace_grows is_mcm_event st ?st1" by (simp add: trace_grows_same)
  from Some assms consider "st' = st" | "st' = ?st1"
    | "tciAlloc_find fuel cfg b ?st1 = Ret (t, st')"
    by (auto simp: tciAllocCommon_def Let_def split: if_splits)
  then show ?thesis
  proof cases
    case 1 then show ?thesis by simp
  next
    case 2 then show ?thesis using g1 by simp
  next
    case 3
    from tciAlloc_find_trace [OF 3] g1 show ?thesis by (rule trace_grows_trans [rotated])
  qed
qed

lemma with_tcip_trace:
  "with_tcip fuel cfg tcip st = Ret (t, st') \<Longrightarrow> trace_grows is_mcm_event st st'"
  by (auto simp: with_tcip_def tciAlloc_def split: option.splits dest: tciAllocCommon_trace)

lemma checkTxCmpls_trace:
  "checkTxCmpls cfg t st = Ret st' \<Longrightarrow> trace st' = trace st"
  by (auto simp: checkTxCmpls_def Let_def split: if_splits)

lemma waitForTxnComplete_trace:
  "waitForTxnComplete cfg t ctx st = Ret st' \<Longrightarrow> trace st' = trace st @ [WaitForTxnComplete t ctx]"
  by (auto simp: waitForTxnComplete_def dest!: checkTxCmpls_trace)

lemma waitForTxnComplete_grows:
  "waitForTxnComplete cfg t ctx st = Ret st' \<Longrightarrow> trace_grows is_mcm_event st st'"
  by (auto simp: trace_grows_def is_mcm_event_def dest!: waitForTxnComplete_trace)

lemma ofi_get_ll_grows:
  assumes "ofi_get_ll fuel cfg addr node raddr sz ctx tcip st = Ret st'"
  shows "trace_grows is_mcm_event st st'"
proof -
  from assms obtain mrKey mrRaddr t st1 where
    w: "with_tcip fuel cfg tcip st = Ret (t, st1)"
    and st': "st' = release_tcip tcip t (incr_numTxnsSent t (incr_numTxnsOut t
                 (emit [Fi_read t addr sz node mrRaddr mrKey ctx] st1)))"
    by (auto simp: ofi_get_ll_def obind_def split: option.splits outcome.splits)
  have "trace_grows is_mcm_event st1 st'"
    unfolding st' by (auto simp: trace_grows_def is_mcm_event_def)
  with with_tcip_trace [OF w] show ?thesis by (rule trace_grows_trans)
qed

lemma mcmReleaseOneNode_grows:
  assumes "mcmReleaseOneNode fuel cfg node t st = Ret st'"
  shows "trace_grows is_mcm_event st st'"
proof -
  from assms obtain ctx st1 where
    "ofi_get_ll fuel cfg (orderDummy cfg) node (orderDummyMap cfg node) 1 ctx (Some t) st = Ret st1"
    "waitForTxnComplete cfg t ctx st1 = Ret st'"
    by (auto simp: mcmReleaseOneNode_def obind_def split: if_splits outcome.splits)
  then show ?thesis
    by (blast intro: trace_grows_trans ofi_get_ll_grows waitForTxnComplete_grows)
qed

lemma wait_cq_room_grows:
  "wait_cq_room fuel cfg t st = Ret st' \<Longrightarrow> trace_grows is_mcm_event st st'"
proof (induction fuel arbitrary: st)
  case 0
  then show ?case by (auto split: if_splits)
next
  case (Suc f)
  show ?case
  proof (cases "txCQ (tciTab st t) \<and> txCQLen cfg \<le> unat (numTxnsOut (tciTab st t))")
    case False
    with Suc.prems show ?thesis by auto
  next
    case True
    with Suc.prems obtain st1 where
      c: "checkTxCmpls cfg t (emit [Sched_yield] st) = Ret st1"
      and r: "wait_cq_room f cfg t st1 = Ret st'"
      by (auto simp: obind_def split: outcome.splits)
    have "trace_grows is_mcm_event st st1"
      using checkTxCmpls_trace [OF c] by (auto simp: trace_grows_def is_mcm_event_def)
    with Suc.IH [OF r] show ?thesis by (blast intro: trace_grows_trans)
  qed
qed

lemma mcm_release_grows:
  assumes "mcm_release fuel cfg t node b st = Ret (b', st')"
  shows "trace_grows is_mcm_event st st'"
proof -
  from assms obtain st1 st2 where
    "checkTxCmpls cfg t st = Ret st1" "wait_cq_room fuel cfg t st1 = Ret st2"
    "mcmReleaseOneNode fuel cfg node t st2 = Ret st'"
    by (auto simp: mcm_release_def obind_def split: outcome.splits)
  then show ?thesis
    by (blast intro: trace_grows_trans trace_grows_same wait_cq_room_grows mcmReleaseOneNode_grows
        dest: checkTxCmpls_trace)
qed

lemma mcm_bits_grows:
  "mcm_bits fuel cfg t ei bis b st = Ret (b', st') \<Longrightarrow> trace_grows is_mcm_event st st'"
proof (induction bis arbitrary: b st)
  case Nil
  then show ?case by simp
next
  case (Cons bi bis)
  show ?case
  proof (cases "(bm_map b ! ei) AND bitmapElemBit bi \<noteq> 0")
    case False
    with Cons show ?thesis by simp
  next
    case True
    with Cons.prems obtain b1 st1 where
      "mcm_release fuel cfg t (ei * bitmapElemWidth + bi) b st = Ret (b1, st1)"
      "mcm_bits fuel cfg t ei bis b1 st1 = Ret (b', st')"
      by (auto simp: obind_def split: outcome.splits)
    then show ?thesis
      by (blast intro: trace_grows_trans mcm_release_grows Cons.IH)
  qed
qed

lemma mcm_elems_grows:
  "mcm_elems fuel cfg t eis b st = Ret (b', st') \<Longrightarrow> trace_grows is_mcm_event st st'"
proof (induction eis arbitrary: b st)
  case Nil
  then show ?case by simp
next
  case (Cons ei eis)
  from Cons.prems obtain b1 st1 where
    step: "(if bm_map b ! ei \<noteq> 0
            then mcm_bits fuel cfg t ei
                   [0 ..< min bitmapElemWidth (bm_len b - ei * bitmapElemWidth)] b st
            else Ret (b, st)) = Ret (b1, st1)"
    and rest: "mcm_elems fuel cfg t eis b1 st1 = Ret (b', st')"
    by (auto simp: obind_def split: outcome.splits)
  have "trace_grows is_mcm_event st st1"
    using step by (auto split: if_splits dest: mcm_bits_grows)
  with Cons.IH [OF rest] show ?case by (blast intro: trace_grows_trans)
qed

lemma mcmReleaseAllNodes_grows:
  assumes "mcmReleaseAllNodes fuel cfg b tcip st = Ret (b', st')"
  shows "trace_grows is_mcm_event st st'"
proof -
  from assms obtain t st1 st2 where
    "with_tcip fuel cfg tcip st = Ret (t, st1)"
    "mcm_elems fuel cfg t [0 ..< bitmapNumElems (bm_len b)] b st1 = Ret (b', st2)"
    "st' = release_tcip tcip t st2"
    by (auto simp: mcmReleaseAllNodes_def obind_def split: outcome.splits)
  then show ?thesis
    by (blast intro: trace_grows_trans trace_grows_same with_tcip_trace mcm_elems_grows
        trace_release_tcip)
qed

lemma waitForPutsVisOneNode_grows:
  "waitForPutsVisOneNode fuel cfg node t st = Ret st' \<Longrightarrow> trace_grows is_mcm_event st st'"
  by (auto simp: waitForPutsVisOneNode_def split: if_splits option.splits
      dest!: mcmReleaseOneNode_grows simp: trace_grows_def)

lemma waitForPutsVisAllNodes_grows:
  assumes "waitForPutsVisAllNodes fuel cfg tcip e st = Ret st'"
  shows "trace_grows is_mcm_event st st'"
proof (cases "chpl_numNodes cfg > 1 \<and> \<not> haveDeliveryComplete cfg")
  case False
  with assms show ?thesis by (auto simp: waitForPutsVisAllNodes_def)
next
  case True
  with assms obtain t st1 st3 where
    w: "with_tcip fuel cfg tcip st = Ret (t, st1)"
    and st': "st' = release_tcip tcip t st3"
    and mid: "(if bound (tciTab st1 t) then
                  (case prvData st1 of
                     None \<Rightarrow> Abort
                   | Some pd \<Rightarrow>
                       (case putBitmap pd of
                          None \<Rightarrow> Ret st1
                        | Some b \<Rightarrow>
                            obind (mcmReleaseAllNodes fuel cfg b None st1)
                              (\<lambda>(b', st2).
                                 Ret (st2\<lparr> prvData :=
                                        Some (pd\<lparr> putBitmap :=
                                                if e then None else Some b' \<rparr>) \<rparr>))))
                else Ret st1) = Ret st3"
    by (auto simp: waitForPutsVisAllNodes_def obind_def split: outcome.splits)
  have "trace_grows is_mcm_event st1 st3"
    using mid
    by (auto simp: obind_def trace_grows_def split: if_splits option.splits outcome.splits
        dest!: mcmReleaseAllNodes_grows)
  with with_tcip_trace [OF w] have "trace_grows is_mcm_event st st3"
    by (rule trace_grows_trans)
  then show ?thesis unfolding st' by (simp add: trace_grows_def)
qed


section \<open>Transfers and atomics on the caller's own node\<close>

lemma retireDelayedAmDone_grows:
  "trace_grows (\<lambda>e. e = AmWaitForDone (prv_amDone_addr cfg)) st (retireDelayedAmDone cfg b st)"
  by (auto simp: retireDelayedAmDone_def trace_grows_def Let_def split: option.splits)

lemma bounce_if_grows:
  "bounce_if cfg r br c p sz st = Ret (q, st') \<Longrightarrow> trace_grows (\<lambda>e. \<not> is_cpu_amo e) st st'"
  by (auto simp: bounce_if_def CHK_TRUE_def trace_grows_def is_cpu_amo_def split: if_splits)

lemma mcm_event_not_cpu_amo: "is_mcm_event e \<Longrightarrow> \<not> is_cpu_amo e"
  by (cases e) (simp_all add: is_mcm_event_def is_cpu_amo_def)

lemma doCpuAMO_trace:
  "doCpuAMO obj o1 o2 res ofiOp ofiType sz st = Ret st'
   \<Longrightarrow> trace st' = trace st @ [Cpu_amo obj ofiOp ofiType sz] \<and> (sz = 4 \<or> sz = 8)"
  by (auto simp: doCpuAMO_def CHK_TRUE_def split: if_splits)

lemma ofi_amo_trace:
  assumes "ofi_amo fuel cfg node object mrKey o1 o2 res ofiOp ofiType sz st = Ret st'"
  shows "\<exists>es. trace st' = trace st @ es
            \<and> (\<exists>t. Fi_amo t node object mrKey ofiOp ofiType sz \<in> set es)
            \<and> (\<forall>e \<in> set es. \<not> is_cpu_amo e)"
proof -
  let ?P = "\<lambda>e. \<not> is_cpu_amo e"
  from assms [unfolded ofi_amo_def] obtain myRes st1 where
    b1: "amo_bounce cfg False res sz st = Ret (myRes, st1)"
    and r1: "obind (amo_bounce cfg True o1 sz st1)
            (\<lambda>(myOpnd1, st2).
               obind (amo_bounce cfg True o2 sz st2)
                 (\<lambda>(myOpnd2, st3).
                    obind (tciAlloc fuel cfg st3)
                      (\<lambda>(t, st4).
                         obind (if ofiOp \<noteq> FI_ATOMIC_READ
                                then waitForPutsVisAllNodes fuel cfg (Some t) False st4
                                else Ret st4)
                           (\<lambda>st5.
                              obind (waitForTxnComplete cfg t
                                       (if txCQ (tciTab st5 t) then Ctx_Done else Ctx_Id)
                                       (incr_numTxnsSent t (incr_numTxnsOut t
                                          (emit [Fi_amo t node object mrKey ofiOp ofiType sz]
                                             st5))))
                                (\<lambda>st6.
                                   Ret (emit
                                          ((if res \<noteq> NULL \<and> myRes \<noteq> res
                                            then [Memcpy res myRes sz, FreeBounceBuf myRes]
                                            else [])
                                           @ (if myOpnd1 \<noteq> o1
                                              then [FreeBounceBuf myOpnd1] else [])
                                           @ (if myOpnd2 \<noteq> o2
                                              then [FreeBounceBuf myOpnd2] else []))
                                          (tciFree t st6))))))) = Ret st'"
    by (elim obind_RetE) (auto split: prod.splits)
  from r1 obtain myO1 st2 where
    b2: "amo_bounce cfg True o1 sz st1 = Ret (myO1, st2)"
    and r2: "obind (amo_bounce cfg True o2 sz st2)
                 (\<lambda>(myOpnd2, st3).
                    obind (tciAlloc fuel cfg st3)
                      (\<lambda>(t, st4).
                         obind (if ofiOp \<noteq> FI_ATOMIC_READ
                                then waitForPutsVisAllNodes fuel cfg (Some t) False st4
                                else Ret st4)
                           (\<lambda>st5.
                              obind (waitForTxnComplete cfg t
                                       (if txCQ (tciTab st5 t) then Ctx_Done else Ctx_Id)
                                       (incr_numTxnsSent t (incr_numTxnsOut t
                                          (emit [Fi_amo t node object mrKey ofiOp ofiType sz]
                                             st5))))
                                (\<lambda>st6.
                                   Ret (emit
                                          ((if res \<noteq> NULL \<and> myRes \<noteq> res
                                            then [Memcpy res myRes sz, FreeBounceBuf myRes]
                                            else [])
                                           @ (if myO1 \<noteq> o1
                                              then [FreeBounceBuf myO1] else [])
                                           @ (if myOpnd2 \<noteq> o2
                                              then [FreeBounceBuf myOpnd2] else []))
                                          (tciFree t st6)))))) = Ret st'"
    by (elim obind_RetE) (auto split: prod.splits)
  from r2 obtain myO2 st3 where
    b3: "amo_bounce cfg True o2 sz st2 = Ret (myO2, st3)"
    and r3: "obind (tciAlloc fuel cfg st3)
                      (\<lambda>(t, st4).
                         obind (if ofiOp \<noteq> FI_ATOMIC_READ
                                then waitForPutsVisAllNodes fuel cfg (Some t) False st4
                                else Ret st4)
                           (\<lambda>st5.
                              obind (waitForTxnComplete cfg t
                                       (if txCQ (tciTab st5 t) then Ctx_Done else Ctx_Id)
                                       (incr_numTxnsSent t (incr_numTxnsOut t
                                          (emit [Fi_amo t node object mrKey ofiOp ofiType sz]
                                             st5))))
                                (\<lambda>st6.
                                   Ret (emit
                                          ((if res \<noteq> NULL \<and> myRes \<noteq> res
                                            then [Memcpy res myRes sz, FreeBounceBuf myRes]
                                            else [])
                                           @ (if myO1 \<noteq> o1
                                              then [FreeBounceBuf myO1] else [])
                                           @ (if myO2 \<noteq> o2
                                              then [FreeBounceBuf myO2] else []))
                                          (tciFree t st6))))) = Ret st'"
    by (elim obind_RetE) (auto split: prod.splits)
  from r3 obtain t st4 where
    al: "tciAlloc fuel cfg st3 = Ret (t, st4)"
    and r4: "obind (if ofiOp \<noteq> FI_ATOMIC_READ
                                then waitForPutsVisAllNodes fuel cfg (Some t) False st4
                                else Ret st4)
                           (\<lambda>st5.
                              obind (waitForTxnComplete cfg t
                                       (if txCQ (tciTab st5 t) then Ctx_Done else Ctx_Id)
                                       (incr_numTxnsSent t (incr_numTxnsOut t
                                          (emit [Fi_amo t node object mrKey ofiOp ofiType sz]
                                             st5))))
                                (\<lambda>st6.
                                   Ret (emit
                                          ((if res \<noteq> NULL \<and> myRes \<noteq> res
                                            then [Memcpy res myRes sz, FreeBounceBuf myRes]
                                            else [])
                                           @ (if myO1 \<noteq> o1
                                              then [FreeBounceBuf myO1] else [])
                                           @ (if myO2 \<noteq> o2
                                              then [FreeBounceBuf myO2] else []))
                                          (tciFree t st6)))) = Ret st'"
    by (elim obind_RetE) (auto split: prod.splits)
  from r4 obtain st5 st6 where
    vis: "(if ofiOp \<noteq> FI_ATOMIC_READ
                then waitForPutsVisAllNodes fuel cfg (Some t) False st4
                else Ret st4) = Ret st5"
    and wt: "waitForTxnComplete cfg t (if txCQ (tciTab st5 t) then Ctx_Done else Ctx_Id)
               (incr_numTxnsSent t (incr_numTxnsOut t
                  (emit [Fi_amo t node object mrKey ofiOp ofiType sz] st5))) = Ret st6"
    and fin: "st' = emit ((if res \<noteq> NULL \<and> myRes \<noteq> res
                            then [Memcpy res myRes sz, FreeBounceBuf myRes] else [])
                           @ (if myO1 \<noteq> o1 then [FreeBounceBuf myO1] else [])
                           @ (if myO2 \<noteq> o2 then [FreeBounceBuf myO2] else []))
                      (tciFree t st6)"
    by (elim obind_RetE) auto
  have g1: "trace_grows ?P st st1"
    using b1 unfolding amo_bounce_def by (rule bounce_if_grows)
  have g2: "trace_grows ?P st1 st2"
    using b2 unfolding amo_bounce_def by (rule bounce_if_grows)
  have g3: "trace_grows ?P st2 st3"
    using b3 unfolding amo_bounce_def by (rule bounce_if_grows)
  have "trace_grows is_mcm_event st3 st4"
    using al unfolding tciAlloc_def by (rule tciAllocCommon_trace)
  then have g4: "trace_grows ?P st3 st4"
    by (rule trace_grows_mono) (rule mcm_event_not_cpu_amo)
  have "trace_grows is_mcm_event st4 st5"
  proof (cases "ofiOp \<noteq> FI_ATOMIC_READ")
    case True
    with vis have "waitForPutsVisAllNodes fuel cfg (Some t) False st4 = Ret st5" by simp
    then show ?thesis by (rule waitForPutsVisAllNodes_grows)
  next
    case False
    with vis show ?thesis by simp
  qed
  then have g5: "trace_grows ?P st4 st5"
    by (rule trace_grows_mono) (rule mcm_event_not_cpu_amo)
  have "trace_grows ?P st st5"
    by (rule trace_grows_trans [OF trace_grows_trans [OF trace_grows_trans
          [OF trace_grows_trans [OF g1 g2] g3] g4] g5])
  then obtain es where es: "trace st5 = trace st @ es" and esP: "\<forall>e \<in> set es. \<not> is_cpu_amo e"
    unfolding trace_grows_def by blast
  let ?issue = "[Fi_amo t node object mrKey ofiOp ofiType sz,
              WaitForTxnComplete t (if txCQ (tciTab st5 t) then Ctx_Done else Ctx_Id)]"
  let ?fin = "(if res \<noteq> NULL \<and> myRes \<noteq> res
                            then [Memcpy res myRes sz, FreeBounceBuf myRes] else [])
                           @ (if myO1 \<noteq> o1 then [FreeBounceBuf myO1] else [])
                           @ (if myO2 \<noteq> o2 then [FreeBounceBuf myO2] else [])"
  have t6: "trace st6 = trace st5 @ ?issue"
    using waitForTxnComplete_trace [OF wt] by simp
  have t': "trace st' = trace st @ (es @ ?issue @ ?fin)"
    unfolding fin using es t6 by simp
  have finP: "\<forall>e \<in> set ?fin. \<not> is_cpu_amo e"
    by (auto simp: is_cpu_amo_def)
  have issueP: "\<forall>e \<in> set ?issue. \<not> is_cpu_amo e"
    by (simp add: is_cpu_amo_def)
  have "Fi_amo t node object mrKey ofiOp ofiType sz \<in> set (es @ ?issue @ ?fin)"
    by simp
  moreover have "\<forall>e \<in> set (es @ ?issue @ ?fin). \<not> is_cpu_amo e"
    using esP finP issueP by (metis Un_iff set_append)
  ultimately show ?thesis
    using t' by blast
qed


text \<open>
  Against claim C7 as it is written: on a job of two nodes, with a type the provider can
  do natively and an object in registered memory, an atomic write whose target is the
  caller's own node goes out through the fabric; \<^verbatim>\<open>doCpuAMO\<close> is not called.
\<close>

theorem self_amo_counterexample:
  "outcome_trace
     (doAMO 2 (ex_cfg\<lparr> validByType := (\<lambda>t. True) \<rparr>) (chpl_nodeID ex_cfg) 4096 8192 NULL NULL
        FI_ATOMIC_WRITE FI_INT64 8 (ex_state False False))
   = Some [Fi_amo 1 0 4096 0 FI_ATOMIC_WRITE FI_INT64 8, WaitForTxnComplete 1 Ctx_Done]"
  by (simp add: doAMO_def ofi_amo_def ex_cfg_def ex_state_def ex_tci_def ex_prv_def
      obind_def CHK_TRUE_def NULL_def Let_def emit_def upd_tci_def outcome_trace_def
      mrGetDesc_def mrGetKey_def last_iw_def findFreeTciTabEntry_def tciAlloc_find_def
      tciAllocCommon_def tciAlloc_def tciFree_def incr_numTxnsOut_def incr_numTxnsSent_def
      checkTxCmpls_def waitForTxnComplete_def with_tcip_def release_tcip_def
      waitForPutsVisAllNodes_def retireDelayedAmDone_def bounce_if_def amo_bounce_def
      findFree_scan.simps numeral_2_eq_2)

text \<open>
  Claim C7, amended.  A put or get with non-null addresses, a size that is not zero and the
  caller's own node as peer ends with one \<^verbatim>\<open>memmove\<close> and issues no fabric operation.
  An AMO on the caller's own node, in a job of more than one node, is done by
  \<^verbatim>\<open>doCpuAMO\<close> when the provider cannot do the type natively or the object has no
  memory-region key (before it only visibility is forced and a delayed done flag retired);
  when the type is valid and the object has a key the AMO is issued to the fabric by
  \<^verbatim>\<open>ofi_amo\<close> and no CPU atomic is performed.
\<close>

theorem self_communication:
  "(addr \<noteq> NULL \<and> raddr \<noteq> NULL \<and> sz \<noteq> 0 \<and> node = chpl_nodeID cfg \<longrightarrow>
      chpl_comm_put fuel cfg addr node raddr sz st
        = Ret (emit [Memmove raddr addr sz] (retireDelayedAmDone cfg False st))
    \<and> chpl_comm_get fuel cfg addr node raddr sz st
        = Ret (emit [Memmove addr raddr sz] (retireDelayedAmDone cfg False st))
    \<and> trace_grows (\<lambda>e. \<not> is_fabric_op e) st
         (emit [Memmove raddr addr sz] (retireDelayedAmDone cfg False st))
    \<and> trace_grows (\<lambda>e. \<not> is_fabric_op e) st
         (emit [Memmove addr raddr sz] (retireDelayedAmDone cfg False st)))
   \<and> (1 < chpl_numNodes cfg \<and> node = chpl_nodeID cfg
        \<and> (\<not> validByType cfg ofiType \<or> mrGetKey cfg node object sz = None)
        \<and> doAMO fuel cfg node object operand1 operand2 result ofiOp ofiType sz st = Ret st'
      \<longrightarrow> (\<exists>es. trace st' = trace st @ es @ [Cpu_amo object ofiOp ofiType sz]
                \<and> (\<forall>e \<in> set es. is_mcm_event e \<or> e = AmWaitForDone (prv_amDone_addr cfg))))
   \<and> (1 < chpl_numNodes cfg \<and> node = chpl_nodeID cfg
        \<and> validByType cfg ofiType \<and> mrGetKey cfg node object sz = Some (mrKey, mrRaddr)
        \<and> doAMO fuel cfg node object operand1 operand2 result ofiOp ofiType sz st = Ret st'
      \<longrightarrow> (\<exists>es. trace st' = trace st @ es
                \<and> (\<exists>t. Fi_amo t node mrRaddr mrKey ofiOp ofiType sz \<in> set es)
                \<and> (\<forall>e \<in> set es. \<not> is_cpu_amo e)))"
proof (intro conjI impI)
  let ?st1 = "retireDelayedAmDone cfg False st"
  have retire: "trace_grows (\<lambda>e. e = AmWaitForDone (prv_amDone_addr cfg)) st ?st1"
    by (rule retireDelayedAmDone_grows)
  {
    assume h: "addr \<noteq> NULL \<and> raddr \<noteq> NULL \<and> sz \<noteq> 0 \<and> node = chpl_nodeID cfg"
    then show "chpl_comm_put fuel cfg addr node raddr sz st = Ret (emit [Memmove raddr addr sz] ?st1)"
      by (simp add: chpl_comm_put_def CHK_TRUE_def Let_def)
    from h show "chpl_comm_get fuel cfg addr node raddr sz st = Ret (emit [Memmove addr raddr sz] ?st1)"
      by (simp add: chpl_comm_get_def CHK_TRUE_def Let_def)
    have nf: "trace_grows (\<lambda>e. \<not> is_fabric_op e) st ?st1"
      using retire by (rule trace_grows_mono) (simp add: is_fabric_op_def)
    show "trace_grows (\<lambda>e. \<not> is_fabric_op e) st (emit [Memmove raddr addr sz] ?st1)"
      by (rule trace_grows_trans [OF nf]) (simp add: trace_grows_emit is_fabric_op_def)
    show "trace_grows (\<lambda>e. \<not> is_fabric_op e) st (emit [Memmove addr raddr sz] ?st1)"
      by (rule trace_grows_trans [OF nf]) (simp add: trace_grows_emit is_fabric_op_def)
  }
  {
    assume h: "1 < chpl_numNodes cfg \<and> node = chpl_nodeID cfg
        \<and> (\<not> validByType cfg ofiType \<or> mrGetKey cfg node object sz = None)
        \<and> doAMO fuel cfg node object operand1 operand2 result ofiOp ofiType sz st = Ret st'"
    then obtain st2 where
      vis: "(if ofiOp \<noteq> FI_ATOMIC_READ
             then waitForPutsVisAllNodes fuel cfg None False ?st1 else Ret ?st1) = Ret st2"
      and cpu: "doCpuAMO object operand1 operand2 result ofiOp ofiType sz st2 = Ret st'"
      by (auto simp: doAMO_def Let_def obind_def split: outcome.splits if_splits)
    have "trace_grows is_mcm_event ?st1 st2"
      using vis by (auto split: if_splits dest!: waitForPutsVisAllNodes_grows)
    with retire have "trace_grows (\<lambda>e. is_mcm_event e \<or> e = AmWaitForDone (prv_amDone_addr cfg)) st st2"
      by (blast intro: trace_grows_trans trace_grows_mono)
    then obtain es where
      "trace st2 = trace st @ es"
      "\<forall>e \<in> set es. is_mcm_event e \<or> e = AmWaitForDone (prv_amDone_addr cfg)"
      unfolding trace_grows_def by blast
    with doCpuAMO_trace [OF cpu]
    show "\<exists>es. trace st' = trace st @ es @ [Cpu_amo object ofiOp ofiType sz]
              \<and> (\<forall>e \<in> set es. is_mcm_event e \<or> e = AmWaitForDone (prv_amDone_addr cfg))"
      by auto
  }
  {
    assume h: "1 < chpl_numNodes cfg \<and> node = chpl_nodeID cfg
        \<and> validByType cfg ofiType \<and> mrGetKey cfg node object sz = Some (mrKey, mrRaddr)
        \<and> doAMO fuel cfg node object operand1 operand2 result ofiOp ofiType sz st = Ret st'"
    then have "ofi_amo fuel cfg node mrRaddr mrKey operand1 operand2 result ofiOp ofiType sz ?st1
                 = Ret st'"
      by (auto simp: doAMO_def Let_def)
    from ofi_amo_trace [OF this] obtain es where
      "trace st' = trace ?st1 @ es"
      "\<exists>t. Fi_amo t node mrRaddr mrKey ofiOp ofiType sz \<in> set es"
      "\<forall>e \<in> set es. \<not> is_cpu_amo e"
      by blast
    moreover have "trace_grows (\<lambda>e. \<not> is_cpu_amo e) st ?st1"
      using retire by (rule trace_grows_mono) (simp add: is_cpu_amo_def)
    then obtain es0 where
      "trace ?st1 = trace st @ es0" "\<forall>e \<in> set es0. \<not> is_cpu_amo e"
      unfolding trace_grows_def by blast
    ultimately have "trace st' = trace st @ (es0 @ es)"
      and "\<exists>t. Fi_amo t node mrRaddr mrKey ofiOp ofiType sz \<in> set (es0 @ es)"
      and "\<forall>e \<in> set (es0 @ es). \<not> is_cpu_amo e"
      by auto
    then show "\<exists>es. trace st' = trace st @ es
              \<and> (\<exists>t. Fi_amo t node mrRaddr mrKey ofiOp ofiType sz \<in> set es)
              \<and> (\<forall>e \<in> set es. \<not> is_cpu_amo e)"
      by blast
  }
qed


lemmas ex_run_defs =
  ex_cfg_def ex_state_def ex_tci_def ex_prv_def
  obind_def CHK_TRUE_def CHK_FALSE_def NULL_def Let_def emit_def upd_tci_def
  mrGetDesc_def mrGetKey_def mrGetLocalKey_def last_iw_def findFreeTciTabEntry_def
  tciAlloc_find_def tciAllocCommon_def tciAlloc_def tciFree_def incr_numTxnsOut_def
  incr_numTxnsSent_def checkTxCmpls_def waitForTxnComplete_def with_tcip_def release_tcip_def
  waitForPutsVisAllNodes_def retireDelayedAmDone_def bounce_if_def amo_bounce_def
  findFree_scan.simps numeral_2_eq_2

theorem self_communication_witness:
  "(4096 :: ptr) \<noteq> NULL \<and> (8192 :: ptr) \<noteq> NULL \<and> (4 :: nat) \<noteq> 0 \<and> 0 = chpl_nodeID ex_cfg
   \<and> chpl_comm_put 1 ex_cfg 4096 0 8192 4 (ex_state False False)
       = Ret ((ex_state False False)\<lparr> trace := [Memmove 8192 4096 4] \<rparr>)
   \<and> chpl_comm_get 1 ex_cfg 4096 0 8192 4 (ex_state False False)
       = Ret ((ex_state False False)\<lparr> trace := [Memmove 4096 8192 4] \<rparr>)
   \<and> 1 < chpl_numNodes ex_cfg \<and> \<not> validByType ex_cfg FI_INT64
   \<and> (\<exists>st'. doAMO 2 ex_cfg 0 4096 8192 NULL NULL FI_ATOMIC_WRITE FI_INT64 8 (ex_state False False)
               = Ret st'
             \<and> (\<exists>es. trace st' = es @ [Cpu_amo 4096 FI_ATOMIC_WRITE FI_INT64 8]))
   \<and> mrGetKey (ex_cfg\<lparr> validByType := (\<lambda>t. True) \<rparr>) 0 4096 8 = Some (0, 4096)
   \<and> (\<exists>st'. doAMO 2 (ex_cfg\<lparr> validByType := (\<lambda>t. True) \<rparr>) 0 4096 8192 NULL NULL
                 FI_ATOMIC_WRITE FI_INT64 8 (ex_state False False) = Ret st'
             \<and> (\<exists>es t. trace st' = es \<and> Fi_amo t 0 4096 0 FI_ATOMIC_WRITE FI_INT64 8 \<in> set es))"
proof -
  obtain st1 where r1:
    "doAMO 2 ex_cfg 0 4096 8192 NULL NULL FI_ATOMIC_WRITE FI_INT64 8 (ex_state False False) = Ret st1"
    by (simp add: doAMO_def doCpuAMO_def cpu_amo_supported_def ex_run_defs)
  obtain st2 where r2:
    "doAMO 2 (ex_cfg\<lparr> validByType := (\<lambda>t. True) \<rparr>) 0 4096 8192 NULL NULL
       FI_ATOMIC_WRITE FI_INT64 8 (ex_state False False) = Ret st2"
    by (simp add: doAMO_def ofi_amo_def ex_run_defs)
  have k: "mrGetKey (ex_cfg\<lparr> validByType := (\<lambda>t. True) \<rparr>) 0 4096 8 = Some (0, 4096)"
    by (simp add: mrGetKey_def ex_cfg_def)
  have c: "1 < chpl_numNodes ex_cfg" "\<not> validByType ex_cfg FI_INT64" "chpl_nodeID ex_cfg = 0"
    by (simp_all add: ex_cfg_def)
  have n: "(4096 :: ptr) \<noteq> NULL" "(8192 :: ptr) \<noteq> NULL" by (simp_all add: NULL_def)
  have put_get: "chpl_comm_put 1 ex_cfg 4096 0 8192 4 (ex_state False False)
       = Ret ((ex_state False False)\<lparr> trace := [Memmove 8192 4096 4] \<rparr>)
    \<and> chpl_comm_get 1 ex_cfg 4096 0 8192 4 (ex_state False False)
       = Ret ((ex_state False False)\<lparr> trace := [Memmove 4096 8192 4] \<rparr>)"
    using self_communication
         [of 4096 8192 4 0 ex_cfg 1 "ex_state False False" FI_INT64 0 0 0 0 FI_SUM
             "ex_state False False" 0 0, THEN conjunct1] n c
    by (simp add: retireDelayedAmDone_def ex_state_def ex_prv_def emit_def)
  have "\<exists>es. trace st1 = trace (ex_state False False) @ es @ [Cpu_amo 4096 FI_ATOMIC_WRITE FI_INT64 8]
           \<and> (\<forall>e \<in> set es. is_mcm_event e \<or> e = AmWaitForDone (prv_amDone_addr ex_cfg))"
    by (rule self_communication
         [of 0 0 8 0 ex_cfg 2 "ex_state False False" FI_INT64 4096 8192 NULL NULL
             FI_ATOMIC_WRITE st1 0 0, THEN conjunct2, THEN conjunct1, rule_format])
       (use c r1 in simp)
  then have cpu: "\<exists>es. trace st1 = es @ [Cpu_amo 4096 FI_ATOMIC_WRITE FI_INT64 8]"
    by (auto simp: ex_state_def)
  have "\<exists>es. trace st2 = trace (ex_state False False) @ es
           \<and> (\<exists>t. Fi_amo t 0 4096 0 FI_ATOMIC_WRITE FI_INT64 8 \<in> set es)
           \<and> (\<forall>e \<in> set es. \<not> is_cpu_amo e)"
    by (rule self_communication
         [of 0 0 8 0 "ex_cfg\<lparr> validByType := (\<lambda>t. True) \<rparr>" 2 "ex_state False False"
             FI_INT64 4096 8192 NULL NULL FI_ATOMIC_WRITE st2 0 4096,
          THEN conjunct2, THEN conjunct2, rule_format])
       (use k r2 in \<open>simp add: ex_cfg_def\<close>)
  then have nat: "\<exists>es t. trace st2 = es \<and> Fi_amo t 0 4096 0 FI_ATOMIC_WRITE FI_INT64 8 \<in> set es"
    by (auto simp: ex_state_def)
  from n c k put_get r1 cpu r2 nat show ?thesis by simp
qed


section \<open>The public PUT and GET\<close>

text \<open>
  Claim C10.  A call of \<^verbatim>\<open>chpl_comm_put\<close> or \<^verbatim>\<open>chpl_comm_get\<close> with a null
  \<^verbatim>\<open>addr\<close> or a null \<^verbatim>\<open>raddr\<close> aborts at the \<^verbatim>\<open>CHK_TRUE\<close> guard, whatever the
  size and the node: the guard comes before the early return for size zero and before the
  \<^verbatim>\<open>memmove\<close> for the caller's own node.
\<close>

theorem chpl_comm_put_get_null_aborts:
  assumes "addr = NULL \<or> raddr = NULL"
  shows "chpl_comm_put fuel cfg addr node raddr sz st = Abort
       \<and> chpl_comm_get fuel cfg addr node raddr sz st = Abort"
  using assms by (auto simp: chpl_comm_put_def chpl_comm_get_def CHK_TRUE_def Let_def)

theorem chpl_comm_put_get_null_aborts_witness:
  "(NULL = NULL \<or> (4096 :: ptr) = NULL)
   \<and> chpl_comm_put 1 ex_cfg NULL (chpl_nodeID ex_cfg) 4096 0 (ex_state False False) = Abort
   \<and> chpl_comm_get 1 ex_cfg NULL (chpl_nodeID ex_cfg) 4096 0 (ex_state False False) = Abort"
  using chpl_comm_put_get_null_aborts
          [of NULL 4096 1 ex_cfg "chpl_nodeID ex_cfg" 0 "ex_state False False"]
  by simp

lemma retireDelayedAmDone_trace:
  "\<exists>es. trace (retireDelayedAmDone cfg e st) = trace st @ es
        \<and> (\<forall>x \<in> set es. \<not> is_fabric_op x \<and> \<not> is_memory_write x)"
  by (auto simp: retireDelayedAmDone_def emit_def Let_def is_fabric_op_def is_memory_write_def
      split: option.splits)

lemma retireDelayedAmDone_tciTab:
  "tciTab (retireDelayedAmDone cfg e st) = tciTab st"
  by (auto simp: retireDelayedAmDone_def emit_def Let_def split: option.splits)

text \<open>
  Against claim C8 as it is written: a put of size zero with a null \<^verbatim>\<open>addr\<close> aborts; an
  AMO of size zero on a single-node job aborts in \<^verbatim>\<open>doCpuAMO\<close>; an AMO of size zero
  to another node sends an active message.
\<close>

theorem zero_size_counterexample:
  "chpl_comm_put 1 ex_cfg NULL 1 4096 0 (ex_state False False) = Abort
   \<and> doAMO 1 (ex_cfg\<lparr> chpl_numNodes := 1 \<rparr>) 0 4096 8192 NULL NULL FI_ATOMIC_WRITE FI_INT64 0
         (ex_state False False) = Abort
   \<and> outcome_trace (doAMO 2 ex_cfg 1 4096 8192 NULL NULL FI_ATOMIC_WRITE FI_INT64 0
         (ex_state False False))
       = Some [Fi_send 1 \<lparr> b_op = am_opAMO, b_node = 0, b_pAmDone = Some 12304,
                          req_payload = Payload_amo FI_ATOMIC_WRITE FI_INT64 0 4096 0 \<rparr> 64 1,
               WaitForTxnComplete 1 Ctx_Done]"
  by (simp add: chpl_comm_put_def doAMO_def doCpuAMO_def ex_run_defs outcome_trace_def
      waitForPutsVisOneNode_def setUpDelayedAmDone_def amRequestCommon_done_def
      amRequestCommon_mcm_def amRequestCommon_send_def amRequestCommon_finish_def
      amRequestCommon_def amRequestAMO_def amo_ofiOp_def)

text \<open>
  Claim C8, amended.  A put or get of size zero with non-null addresses returns after
  retiring a delayed done flag, which adds at most a wait: no fabric operation is issued,
  no memory is written, the transmit contexts are untouched.  There is no such return for
  an AMO: the public operations pass 4 or 8 as the size, and \<^verbatim>\<open>doAMO\<close> with size zero
  on a single-node job aborts at the size check of \<^verbatim>\<open>doCpuAMO\<close>.
\<close>

theorem zero_size_put_get_returns:
  assumes "addr \<noteq> NULL" and "raddr \<noteq> NULL"
  shows "chpl_comm_put fuel cfg addr node raddr 0 st = Ret (retireDelayedAmDone cfg False st)
       \<and> chpl_comm_get fuel cfg addr node raddr 0 st = Ret (retireDelayedAmDone cfg False st)
       \<and> tciTab (retireDelayedAmDone cfg False st) = tciTab st
       \<and> (\<exists>es. trace (retireDelayedAmDone cfg False st) = trace st @ es
                \<and> (\<forall>x \<in> set es. \<not> is_fabric_op x \<and> \<not> is_memory_write x))
       \<and> (chpl_numNodes cfg \<le> 1 \<longrightarrow>
            doAMO fuel cfg node object operand1 operand2 result ofiOp ofiType 0 st = Abort)"
  using assms retireDelayedAmDone_trace [of cfg False st]
  by (simp add: chpl_comm_put_def chpl_comm_get_def CHK_TRUE_def Let_def
      retireDelayedAmDone_tciTab doAMO_def doCpuAMO_def)

theorem zero_size_put_get_returns_witness:
  "(4096 :: ptr) \<noteq> NULL \<and> (8192 :: ptr) \<noteq> NULL
   \<and> chpl_comm_put 0 ex_cfg 4096 1 8192 0 (ex_state False False) = Ret (ex_state False False)
   \<and> chpl_comm_get 0 ex_cfg 4096 1 8192 0 (ex_state False False) = Ret (ex_state False False)
   \<and> chpl_numNodes (ex_cfg\<lparr> chpl_numNodes := 1 \<rparr>) \<le> 1
   \<and> doAMO 0 (ex_cfg\<lparr> chpl_numNodes := 1 \<rparr>) 1 4096 8192 NULL NULL FI_SUM FI_INT32 0
         (ex_state False False) = Abort"
proof -
  have h: "(4096 :: ptr) \<noteq> NULL" "(8192 :: ptr) \<noteq> NULL" by (simp_all add: NULL_def)
  have one: "chpl_numNodes (ex_cfg\<lparr> chpl_numNodes := 1 \<rparr>) \<le> 1" by simp
  show ?thesis
    using h one zero_size_put_get_returns [OF h, of 0 ex_cfg 1 "ex_state False False"]
      zero_size_put_get_returns [OF h, of 0 "ex_cfg\<lparr> chpl_numNodes := 1 \<rparr>" 1
        "ex_state False False" 4096 8192 NULL NULL FI_SUM FI_INT32]
    by (simp add: retireDelayedAmDone_def ex_state_def ex_prv_def)
qed

section \<open>Sending an active-message request\<close>

lemma amRequestCommon_done_None:
  "amRequestCommon_done cfg blocking = Ret pAmDone \<Longrightarrow> (pAmDone = None) = (\<not> blocking)"
  by (auto simp: amRequestCommon_done_def CHK_TRUE_def split: if_splits)

lemma amRequestCommon_RetE:
  assumes "amRequestCommon fuel cfg node req reqAddr reqSize blocking y tcip st = Ret st'"
  obtains pAmDone t st1 myReq st2 st3 st4 where
    "amRequestCommon_done cfg blocking = Ret pAmDone"
    "with_tcip fuel cfg tcip st = Ret (t, st1)"
    "bounce_if cfg (mrGetDesc cfg reqAddr reqSize \<noteq> None)
       (mrGetDesc cfg (allocBounceBuf cfg reqSize) reqSize \<noteq> None) True reqAddr reqSize st1
       = Ret (myReq, st2)"
    "amRequestCommon_mcm fuel cfg node (if blocking then req\<lparr> b_pAmDone := pAmDone \<rparr> else req)
       t st2 = Ret st3"
    "amRequestCommon_send cfg node (if blocking then req\<lparr> b_pAmDone := pAmDone \<rparr> else req)
       reqSize pAmDone t st3 = Ret st4"
    "st' = amRequestCommon_finish cfg reqAddr myReq pAmDone tcip t st4"
proof -
  let ?req1 = "\<lambda>p. if blocking then req\<lparr> b_pAmDone := p \<rparr> else req"
  from assms [unfolded amRequestCommon_def Let_def] obtain pAmDone where
    d: "amRequestCommon_done cfg blocking = Ret pAmDone"
    and r1: "obind (with_tcip fuel cfg tcip st)
            (\<lambda>(t, st1).
               obind (bounce_if cfg (mrGetDesc cfg reqAddr reqSize \<noteq> None)
                        (mrGetDesc cfg (allocBounceBuf cfg reqSize) reqSize \<noteq> None)
                        True reqAddr reqSize st1)
                 (\<lambda>(myReq, st2).
                    obind (amRequestCommon_mcm fuel cfg node (?req1 pAmDone) t st2)
                      (\<lambda>st3.
                         obind (amRequestCommon_send cfg node (?req1 pAmDone) reqSize pAmDone t st3)
                           (\<lambda>st4.
                              Ret (amRequestCommon_finish cfg reqAddr myReq pAmDone tcip t
                                     st4))))) = Ret st'"
    by (rule obind_RetE)
  from r1 obtain t st1 where
    w: "with_tcip fuel cfg tcip st = Ret (t, st1)"
    and r2: "obind (bounce_if cfg (mrGetDesc cfg reqAddr reqSize \<noteq> None)
                        (mrGetDesc cfg (allocBounceBuf cfg reqSize) reqSize \<noteq> None)
                        True reqAddr reqSize st1)
                 (\<lambda>(myReq, st2).
                    obind (amRequestCommon_mcm fuel cfg node (?req1 pAmDone) t st2)
                      (\<lambda>st3.
                         obind (amRequestCommon_send cfg node (?req1 pAmDone) reqSize pAmDone t st3)
                           (\<lambda>st4.
                              Ret (amRequestCommon_finish cfg reqAddr myReq pAmDone tcip t
                                     st4)))) = Ret st'"
    by (elim obind_RetE) (auto split: prod.splits)
  from r2 obtain myReq st2 where
    b: "bounce_if cfg (mrGetDesc cfg reqAddr reqSize \<noteq> None)
          (mrGetDesc cfg (allocBounceBuf cfg reqSize) reqSize \<noteq> None) True reqAddr reqSize st1
          = Ret (myReq, st2)"
    and r3: "obind (amRequestCommon_mcm fuel cfg node (?req1 pAmDone) t st2)
                      (\<lambda>st3.
                         obind (amRequestCommon_send cfg node (?req1 pAmDone) reqSize pAmDone t st3)
                           (\<lambda>st4.
                              Ret (amRequestCommon_finish cfg reqAddr myReq pAmDone tcip t
                                     st4))) = Ret st'"
    by (elim obind_RetE) (auto split: prod.splits)
  from r3 obtain st3 st4 where
    "amRequestCommon_mcm fuel cfg node (?req1 pAmDone) t st2 = Ret st3"
    "amRequestCommon_send cfg node (?req1 pAmDone) reqSize pAmDone t st3 = Ret st4"
    "st' = amRequestCommon_finish cfg reqAddr myReq pAmDone tcip t st4"
    by (elim obind_RetE) auto
  with d w b show ?thesis by (rule that)
qed

lemma amRequestCommon_finish_grows:
  "trace_grows (\<lambda>e. \<not> is_fabric_op e) st (amRequestCommon_finish cfg reqAddr myReq pAmDone tcip t st)"
  by (auto simp: amRequestCommon_finish_def Let_def trace_grows_def is_fabric_op_def
      split: option.splits)

lemma numTxnsSent_checkTxCmpls:
  "checkTxCmpls cfg t st = Ret st' \<Longrightarrow> numTxnsSent (tciTab st' t) = numTxnsSent (tciTab st t)"
  by (auto simp: checkTxCmpls_def Let_def upd_tci_def split: if_splits)

lemma amRequestCommon_send_inject:
  assumes "pAmDone = None" and "reqSize \<le> inject_size cfg"
  shows "amRequestCommon_send cfg node req reqSize pAmDone t st
           = Ret (incr_numTxnsSent t (emit [Fi_inject t req reqSize node] st))"
  using assms by (simp add: amRequestCommon_send_def)

lemma amRequestCommon_send_normal:
  assumes "\<not> (pAmDone = None \<and> reqSize \<le> inject_size cfg)"
  shows "amRequestCommon_send cfg node req reqSize pAmDone t st
           = waitForTxnComplete cfg t Ctx_Done
               (incr_numTxnsSent t (incr_numTxnsOut t (emit [Fi_send t req reqSize node] st)))"
  using assms by (auto simp: amRequestCommon_send_def)

section \<open>Bitmaps and the PUTs not yet forced into visibility\<close>

lemma sdiv_elem_width: "int m sdiv 64 = int (m div 64)"
  by (simp add: signed_divide_int_def sgn_if zdiv_int)

lemma bitmapNumElems_pos:
  assumes "0 < n"
  shows "bitmapNumElems n = (n - 1) div 64 + 1"
proof -
  from assms have e: "int n - 1 = int (n - 1)" by simp
  have "bitmapNumElems n = nat (int (n - 1) sdiv 64 + 1)"
    by (simp only: bitmapNumElems_def bitmapElemWidth_def e of_nat_numeral)
  also have "\<dots> = (n - 1) div 64 + 1"
    by (simp add: sdiv_elem_width)
  finally show ?thesis .
qed

lemma bitmapElemIdx_in_range:
  "i < n \<Longrightarrow> bitmapElemIdx i < bitmapNumElems n"
  by (simp add: bitmapNumElems_pos bitmapElemIdx_def bitmapElemWidth_def
      less_Suc_eq_le div_le_mono)

lemma bitmapTest_bit:
  "bitmapTest b i = bit (bm_map b ! (i div 64)) (i mod 64)"
  by (simp add: bitmapTest_def bitmapElemBit_def bitmapOff_def bitmapElemIdx_def
      bitmapElemWidth_def bit_iff_and_push_bit_not_eq_0)

lemma bit_elem_test:
  "bi < 64 \<Longrightarrow> ((w :: 64 word) AND bitmapElemBit bi \<noteq> 0) = bit w bi"
  by (simp add: bitmapElemBit_def bitmapOff_def bitmapElemWidth_def
      bit_iff_and_push_bit_not_eq_0)

lemma bit_clear_elem:
  "bit ((w :: 64 word) AND NOT (bitmapElemBit i)) n = (bit w n \<and> n \<noteq> i mod 64)"
  by (auto simp: bitmapElemBit_def bitmapOff_def bitmapElemWidth_def bit_simps
      dest: bit_imp_le_length)

lemma bit_set_elem:
  "bit ((w :: 64 word) OR bitmapElemBit i) n = (bit w n \<or> n = i mod 64)"
  by (auto simp: bitmapElemBit_def bitmapOff_def bitmapElemWidth_def bit_simps
      dest: bit_imp_le_length)

lemma bitmapTest_bitmapSet:
  "bitmapElemIdx i < length (bm_map b) \<Longrightarrow> bitmapTest (bitmapSet b i) i"
  by (simp add: bitmapTest_bit bitmapSet_def bitmapElemIdx_def bitmapElemWidth_def bit_set_elem)

lemma bitmapTest_bitmapClear:
  "bitmapElemIdx i < length (bm_map b) \<Longrightarrow> \<not> bitmapTest (bitmapClear b i) i"
  by (simp add: bitmapTest_bit bitmapClear_def bitmapElemIdx_def bitmapElemWidth_def
      bit_clear_elem)

lemma bitmapTest_bitmapSet_other:
  assumes "j \<noteq> i"
  shows "bitmapTest (bitmapSet b i) j = bitmapTest b j"
proof (cases "i div 64 = j div 64")
  case False
  then show ?thesis
    by (simp add: bitmapTest_bit bitmapSet_def bitmapElemIdx_def bitmapElemWidth_def)
next
  case True
  with assms have "j mod 64 \<noteq> i mod 64"
    by (metis div_mult_mod_eq)
  with True show ?thesis
    by (cases "i div 64 < length (bm_map b)")
       (simp_all add: bitmapTest_bit bitmapSet_def bitmapElemIdx_def bitmapElemWidth_def
         bit_set_elem not_less list_update_beyond)
qed

lemma bitmapTest_bitmapAlloc: "i < n \<Longrightarrow> \<not> bitmapTest (bitmapAlloc n) i"
  using bitmapElemIdx_in_range [of i n]
  by (simp add: bitmapTest_bit bitmapAlloc_def bitmapElemIdx_def bitmapElemWidth_def)

lemma mcm_release_bitmap:
  "mcm_release fuel cfg t node b st = Ret (b', st') \<Longrightarrow> b' = bitmapClear b node"
  by (auto simp: mcm_release_def obind_def split: outcome.splits)

lemma bitmapClear_in_elem:
  "bi < 64 \<Longrightarrow>
   bitmapClear b (ei * bitmapElemWidth + bi)
     = b\<lparr> bm_map := (bm_map b)[ei := (bm_map b ! ei) AND NOT (bitmapElemBit bi)] \<rparr>"
  by (simp add: bitmapClear_def bitmapElemIdx_def bitmapElemWidth_def bitmapElemBit_def
      bitmapOff_def)

lemma mcm_bits_clears:
  assumes "mcm_bits fuel cfg t ei bis b st = Ret (b', st')"
    and "ei < length (bm_map b)" and "\<forall>bi \<in> set bis. bi < 64"
  shows "length (bm_map b') = length (bm_map b) \<and> bm_len b' = bm_len b
     \<and> (\<forall>j. j \<noteq> ei \<longrightarrow> bm_map b' ! j = bm_map b ! j)
     \<and> (\<forall>n. bit (bm_map b' ! ei) n \<longrightarrow> bit (bm_map b ! ei) n \<and> n \<notin> set bis)"
  using assms
proof (induction bis arbitrary: b st)
  case Nil
  then show ?case by simp
next
  case (Cons bi bis)
  from Cons.prems have lt: "bi < 64" and rest: "\<forall>bi \<in> set bis. bi < 64" by simp_all
  show ?case
  proof (cases "bit (bm_map b ! ei) bi")
    case False
    with Cons.prems lt have "mcm_bits fuel cfg t ei bis b st = Ret (b', st')"
      by (simp add: bit_elem_test)
    from Cons.IH [OF this Cons.prems(2) rest] False show ?thesis by auto
  next
    case True
    let ?b1 = "b\<lparr> bm_map := (bm_map b)[ei := (bm_map b ! ei) AND NOT (bitmapElemBit bi)] \<rparr>"
    from True Cons.prems lt obtain b1 st1 where
      rel: "mcm_release fuel cfg t (ei * bitmapElemWidth + bi) b st = Ret (b1, st1)"
      and r: "mcm_bits fuel cfg t ei bis b1 st1 = Ret (b', st')"
      by (auto simp: bit_elem_test obind_def split: outcome.splits)
    from mcm_release_bitmap [OF rel] lt have b1: "b1 = ?b1"
      by (simp add: bitmapClear_in_elem)
    have len: "ei < length (bm_map ?b1)" using Cons.prems(2) by simp
    from Cons.IH [OF r [unfolded b1] len rest] Cons.prems(2) lt show ?thesis
      by (auto simp: bit_clear_elem)
  qed
qed

lemma mcm_elems_clears:
  assumes "mcm_elems fuel cfg t eis b st = Ret (b', st')"
    and "\<forall>ei \<in> set eis. ei < length (bm_map b)"
  shows "length (bm_map b') = length (bm_map b) \<and> bm_len b' = bm_len b
     \<and> (\<forall>j n. bit (bm_map b' ! j) n
           \<longrightarrow> bit (bm_map b ! j) n
               \<and> (j \<in> set eis \<longrightarrow> \<not> n < min bitmapElemWidth (bm_len b - j * bitmapElemWidth)))"
  using assms
proof (induction eis arbitrary: b st)
  case Nil
  then show ?case by simp
next
  case (Cons ei eis)
  let ?bis = "[0 ..< min bitmapElemWidth (bm_len b - ei * bitmapElemWidth)]"
  from Cons.prems obtain b1 st1 where
    step: "(if bm_map b ! ei \<noteq> 0 then mcm_bits fuel cfg t ei ?bis b st else Ret (b, st))
             = Ret (b1, st1)"
    and r: "mcm_elems fuel cfg t eis b1 st1 = Ret (b', st')"
    by (auto simp: obind_def split: outcome.splits)
  from Cons.prems have ei: "ei < length (bm_map b)" by simp
  have s1: "length (bm_map b1) = length (bm_map b) \<and> bm_len b1 = bm_len b
     \<and> (\<forall>j. j \<noteq> ei \<longrightarrow> bm_map b1 ! j = bm_map b ! j)
     \<and> (\<forall>n. bit (bm_map b1 ! ei) n \<longrightarrow> bit (bm_map b ! ei) n \<and> n \<notin> set ?bis)"
  proof (cases "bm_map b ! ei = 0")
    case True
    with step show ?thesis by simp
  next
    case False
    with step have "mcm_bits fuel cfg t ei ?bis b st = Ret (b1, st1)" by simp
    then show ?thesis
      by (rule mcm_bits_clears) (use ei in \<open>auto simp: bitmapElemWidth_def\<close>)
  qed
  then have len1: "\<forall>ei \<in> set eis. ei < length (bm_map b1)" using Cons.prems(2) by simp
  note ih = Cons.IH [OF r len1]
  show ?case
  proof (intro conjI allI impI)
    show "length (bm_map b') = length (bm_map b)" using ih s1 by simp
    show "bm_len b' = bm_len b" using ih s1 by simp
  next
    fix j n assume bt: "bit (bm_map b' ! j) n"
    with ih have b1j: "bit (bm_map b1 ! j) n" by blast
    with s1 show "bit (bm_map b ! j) n" by (cases "j = ei") auto
  next
    fix j n assume bt: "bit (bm_map b' ! j) n" and j: "j \<in> set (ei # eis)"
    with ih have b1j: "bit (bm_map b1 ! j) n"
      and t: "j \<in> set eis \<longrightarrow> \<not> n < min bitmapElemWidth (bm_len b1 - j * bitmapElemWidth)"
      by blast+
    show "\<not> n < min bitmapElemWidth (bm_len b - j * bitmapElemWidth)"
    proof (cases "j = ei")
      case True
      with b1j s1 have "n \<notin> set ?bis" by blast
      with True show ?thesis by simp
    next
      case False
      with j t s1 show ?thesis by simp
    qed
  qed
qed

lemma mcmReleaseAllNodes_clears:
  assumes "mcmReleaseAllNodes fuel cfg b tcip st = Ret (b', st')"
    and "length (bm_map b) = bitmapNumElems (bm_len b)" and "i < bm_len b"
  shows "\<not> bitmapTest b' i"
proof -
  from assms(1) obtain t st1 st2 where
    e: "mcm_elems fuel cfg t [0 ..< bitmapNumElems (bm_len b)] b st1 = Ret (b', st2)"
    by (auto simp: mcmReleaseAllNodes_def obind_def split: outcome.splits)
  have "\<forall>ei \<in> set [0 ..< bitmapNumElems (bm_len b)]. ei < length (bm_map b)"
    using assms(2) by simp
  from mcm_elems_clears [OF e this]
  have c: "\<And>j n. bit (bm_map b' ! j) n \<Longrightarrow> j < bitmapNumElems (bm_len b)
              \<Longrightarrow> \<not> n < min bitmapElemWidth (bm_len b - j * bitmapElemWidth)"
    by auto
  have j: "i div 64 < bitmapNumElems (bm_len b)"
    using bitmapElemIdx_in_range [OF assms(3)] by (simp add: bitmapElemIdx_def bitmapElemWidth_def)
  have "i mod 64 < min bitmapElemWidth (bm_len b - (i div 64) * bitmapElemWidth)"
    using assms(3) by (simp add: bitmapElemWidth_def) presburger
  with c [OF _ j] show ?thesis by (auto simp: bitmapTest_bit)
qed

lemma bitmapTest_fresh: "i < n \<Longrightarrow> bitmapTest (bitmapSet (bitmapAlloc n) i) i"
  using bitmapElemIdx_in_range [of i n]
  by (intro bitmapTest_bitmapSet) (simp add: bitmapAlloc_def)

lemma mcmReleaseOneNode_effect:
  assumes "mcmReleaseOneNode fuel cfg node t st = Ret st'"
  shows "prvData st' = prvData st
     \<and> (\<exists>mrRaddr mrKey ctx.
           mrGetKey cfg node (orderDummyMap cfg node) 1 = Some (mrKey, mrRaddr)
         \<and> trace st' = trace st @ [Fi_read t (orderDummy cfg) 1 node mrRaddr mrKey ctx,
                                   WaitForTxnComplete t ctx])"
proof -
  from assms obtain ctx st1 where
    g: "ofi_get_ll fuel cfg (orderDummy cfg) node (orderDummyMap cfg node) 1 ctx (Some t) st = Ret st1"
    and w: "waitForTxnComplete cfg t ctx st1 = Ret st'"
    by (auto simp: mcmReleaseOneNode_def obind_def split: if_splits outcome.splits)
  from g obtain mrKey mrRaddr where
    k: "mrGetKey cfg node (orderDummyMap cfg node) 1 = Some (mrKey, mrRaddr)"
    and st1: "st1 = incr_numTxnsSent t (incr_numTxnsOut t
                 (emit [Fi_read t (orderDummy cfg) 1 node mrRaddr mrKey ctx] st))"
    by (auto simp: ofi_get_ll_def with_tcip_def release_tcip_def obind_def
        split: option.splits)
  from w have p: "prvData st' = prvData st1"
    by (auto simp: waitForTxnComplete_def checkTxCmpls_def Let_def upd_tci_def emit_def
        split: if_splits)
  have "prvData st1 = prvData st"
    unfolding st1 by (simp add: incr_numTxnsSent_def incr_numTxnsOut_def upd_tci_def emit_def)
  moreover have "trace st' = trace st @ [Fi_read t (orderDummy cfg) 1 node mrRaddr mrKey ctx,
                                   WaitForTxnComplete t ctx]"
    using waitForTxnComplete_trace [OF w] unfolding st1 by simp
  ultimately show ?thesis using p k by auto
qed

text \<open>
  After \<^verbatim>\<open>waitForPutsVisOneNode\<close> the node is no longer marked in the task's bitmap; if
  it was, a dummy GET from that node has been issued and waited for, and if it was not,
  nothing has happened.
\<close>

lemma waitForPutsVisOneNode_effect:
  assumes "waitForPutsVisOneNode fuel cfg node t st = Ret st'"
    and "\<not> haveDeliveryComplete cfg" and "bound (tciTab st t)"
    and "prvData st = Some pd" and "putBitmap pd = Some b"
    and "bitmapElemIdx node < length (bm_map b)"
  shows "\<exists>b'. prvData st' = Some (pd\<lparr> putBitmap := Some b' \<rparr>) \<and> \<not> bitmapTest b' node
     \<and> (if bitmapTest b node
         then \<exists>mrRaddr mrKey ctx.
                trace st' = trace st @ [Fi_read t (orderDummy cfg) 1 node mrRaddr mrKey ctx,
                                        WaitForTxnComplete t ctx]
         else st' = st)"
proof (cases "bitmapTest b node")
  case False
  with assms have "st' = st" by (simp add: waitForPutsVisOneNode_def)
  with False assms(4,5) show ?thesis by (intro exI [of _ b]) simp
next
  case True
  let ?st1 = "st\<lparr> prvData := Some (pd\<lparr> putBitmap := Some (bitmapClear b node) \<rparr>) \<rparr>"
  from True assms have "mcmReleaseOneNode fuel cfg node t ?st1 = Ret st'"
    by (simp add: waitForPutsVisOneNode_def)
  from mcmReleaseOneNode_effect [OF this] True bitmapTest_bitmapClear [OF assms(6)]
  show ?thesis by (intro exI [of _ "bitmapClear b node"]) auto
qed

text \<open>
  After \<^verbatim>\<open>waitForPutsVisAllNodes\<close> on a bound context no node is marked in the task's
  bitmap.
\<close>

lemma waitForPutsVisAllNodes_effect:
  assumes "waitForPutsVisAllNodes fuel cfg (Some t) False st = Ret st'"
    and "1 < chpl_numNodes cfg" and "\<not> haveDeliveryComplete cfg" and "bound (tciTab st t)"
    and "prvData st = Some pd" and "putBitmap pd = Some b"
    and "length (bm_map b) = bitmapNumElems (bm_len b)"
  shows "\<exists>b'. prvData st' = Some (pd\<lparr> putBitmap := Some b' \<rparr>)
           \<and> (\<forall>i < bm_len b. \<not> bitmapTest b' i)"
proof -
  from assms(1-6) obtain b' st2 where
    r: "mcmReleaseAllNodes fuel cfg b None st = Ret (b', st2)"
    and st': "st' = st2\<lparr> prvData := Some (pd\<lparr> putBitmap := Some b' \<rparr>) \<rparr>"
    by (auto simp: waitForPutsVisAllNodes_def with_tcip_def release_tcip_def obind_def
        split: outcome.splits)
  from mcmReleaseAllNodes_clears [OF r assms(7)] st' show ?thesis
    by (intro exI [of _ b']) simp
qed

section \<open>A PUT in message-order mode\<close>

lemma ofi_put_direct_inject:
  assumes "\<not> haveDeliveryComplete cfg" and "txCQ (tciTab st t)" and "bound (tciTab st t)"
    and "sz \<le> inject_size cfg" and "prvData st = Some pd"
  shows "ofi_put_direct fuel cfg myAddr node sz mrRaddr mrKey t st
           = Ret ((incr_numTxnsSent t (emit [Fi_inject_write t myAddr sz node mrRaddr mrKey] st))
                    \<lparr> prvData := Some (pd\<lparr> putBitmap :=
                         Some (bitmapSet
                                 (case putBitmap pd of
                                    None \<Rightarrow> bitmapAlloc (chpl_numNodes cfg)
                                  | Some b \<Rightarrow> b) node) \<rparr>) \<rparr>)"
  using assms
  by (simp add: ofi_put_direct_def Let_def incr_numTxnsSent_def upd_tci_def emit_def)

lemma checkTxCmpls_txCQ:
  "txCQ (tciTab st t) \<Longrightarrow>
   checkTxCmpls cfg t st
     = Ret (upd_tci t (\<lambda>e. e\<lparr> numTxnsOut := numTxnsOut e - cqEvents cfg (clock st) \<rparr>)
             (st\<lparr> clock := clock st + 1 \<rparr>))"
  by (simp add: checkTxCmpls_def Let_def)

lemma ofi_put_direct_write:
  assumes "\<not> haveDeliveryComplete cfg" and "txCQ (tciTab st t)"
    and "\<not> (bound (tciTab st t) \<and> sz \<le> inject_size cfg)"
    and "mrGetKey cfg node (orderDummyMap cfg node) 1 = Some (dKey, dRaddr)"
    and "mrGetDesc cfg (orderDummy cfg) 1 \<noteq> None"
  shows "\<exists>st'. ofi_put_direct fuel cfg myAddr node sz mrRaddr mrKey t st = Ret st'
     \<and> trace st' = trace st @ [Fi_write t myAddr sz node mrRaddr mrKey Ctx_NULL,
                               Fi_read t (orderDummy cfg) 1 node dRaddr dKey Ctx_Done,
                               WaitForTxnComplete t Ctx_Done]
     \<and> prvData st' = prvData st
     \<and> numTxnsSent (tciTab st' t) = numTxnsSent (tciTab st t) + 2"
proof -
  let ?st1 = "incr_numTxnsSent t (incr_numTxnsOut t
                (emit [Fi_write t myAddr sz node mrRaddr mrKey Ctx_NULL] st))"
  let ?st2 = "incr_numTxnsSent t (incr_numTxnsOut t
                (emit [Fi_read t (orderDummy cfg) 1 node dRaddr dKey Ctx_Done] ?st1))"
  let ?st3 = "emit [WaitForTxnComplete t Ctx_Done] ?st2"
  from assms(5) obtain d where d: "mrGetDesc cfg (orderDummy cfg) 1 = Some d" by auto
  have g: "ofi_get_ll fuel cfg (orderDummy cfg) node (orderDummyMap cfg node) 1 Ctx_Done
             (Some t) ?st1 = Ret ?st2"
    using assms(4) d
    by (simp add: ofi_get_ll_def with_tcip_def release_tcip_def obind_def)
  have cq: "txCQ (tciTab ?st3 t)"
    using assms(2)
    by (simp add: incr_numTxnsSent_def incr_numTxnsOut_def upd_tci_def emit_def)
  have run: "ofi_put_direct fuel cfg myAddr node sz mrRaddr mrKey t st
               = checkTxCmpls cfg t ?st3"
    using assms(1,2,3) g
    by (auto simp: ofi_put_direct_def Let_def obind_def waitForTxnComplete_def)
  show ?thesis
    unfolding run checkTxCmpls_txCQ [OF cq]
    by (simp add: incr_numTxnsSent_def incr_numTxnsOut_def upd_tci_def emit_def)
qed

lemma tciFree_fields [simp]:
  "prvData (tciFree t st) = prvData st"
  "numTxnsSent (tciTab (tciFree t st) u) = numTxnsSent (tciTab st u)"
  "numTxnsOut (tciTab (tciFree t st) u) = numTxnsOut (tciTab st u)"
  by (simp_all add: tciFree_def upd_tci_def)

text \<open>
  Claim C1.  A PUT that is not split, to a remote address with a memory-region key, with
  the provider in message-order mode: when the context that \<^verbatim>\<open>tciAlloc\<close> returns is bound
  and the size is at most the inject size, \<^verbatim>\<open>ofi_put\<close> returns after one
  \<^verbatim>\<open>fi_inject_write\<close> and no wait, with the target node set in the task's bitmap (a new
  bitmap of \<^verbatim>\<open>chpl_numNodes\<close> bits if the task had none), \<^verbatim>\<open>numTxnsSent\<close> one higher
  and \<^verbatim>\<open>numTxnsOut\<close> as it was.  Otherwise it issues \<^verbatim>\<open>fi_write\<close>, then a read of one
  byte from the same node into \<^verbatim>\<open>orderDummy\<close>, and waits for the completion of that read
  before it returns; the bitmap is not touched.
\<close>

theorem ofi_put_message_order:
  assumes mo: "\<not> haveDeliveryComplete cfg"
    and fits: "sz \<le> max_msg_size cfg"
    and key: "mrGetKey cfg node raddr sz = Some (mrKey, mrRaddr)"
    and src: "bounce_if cfg (mrGetDesc cfg addr sz \<noteq> None)
                (mrGetDesc cfg (allocBounceBuf cfg sz) sz \<noteq> None) True addr sz st
                = Ret (myAddr, st1)"
    and ctx: "tciAlloc fuel cfg st1 = Ret (t, st2)"
    and cq: "txCQ (tciTab st2 t)"
    and prv: "prvData st2 = Some pd"
  shows "(bound (tciTab st2 t) \<and> sz \<le> inject_size cfg \<longrightarrow>
           (\<exists>st' b'. ofi_put (Suc fuel) cfg addr node raddr sz st = Ret st'
              \<and> trace st' = trace st2 @ Fi_inject_write t myAddr sz node mrRaddr mrKey
                               # (if myAddr \<noteq> addr then [FreeBounceBuf myAddr] else [])
              \<and> b' = bitmapSet (case putBitmap pd of
                                   None \<Rightarrow> bitmapAlloc (chpl_numNodes cfg)
                                 | Some b \<Rightarrow> b) node
              \<and> prvData st' = Some (pd\<lparr> putBitmap := Some b' \<rparr>)
              \<and> (node < chpl_numNodes cfg
                   \<and> (\<forall>b. putBitmap pd = Some b \<longrightarrow> bitmapElemIdx node < length (bm_map b))
                  \<longrightarrow> bitmapTest b' node)
              \<and> numTxnsSent (tciTab st' t) = numTxnsSent (tciTab st2 t) + 1
              \<and> numTxnsOut (tciTab st' t) = numTxnsOut (tciTab st2 t)))
       \<and> (\<not> (bound (tciTab st2 t) \<and> sz \<le> inject_size cfg)
           \<and> mrGetKey cfg node (orderDummyMap cfg node) 1 = Some (dKey, dRaddr)
           \<and> mrGetDesc cfg (orderDummy cfg) 1 \<noteq> None \<longrightarrow>
           (\<exists>st'. ofi_put (Suc fuel) cfg addr node raddr sz st = Ret st'
              \<and> trace st' = trace st2 @ [Fi_write t myAddr sz node mrRaddr mrKey Ctx_NULL,
                                        Fi_read t (orderDummy cfg) 1 node dRaddr dKey Ctx_Done,
                                        WaitForTxnComplete t Ctx_Done]
                               @ (if myAddr \<noteq> addr then [FreeBounceBuf myAddr] else [])
              \<and> prvData st' = prvData st2
              \<and> numTxnsSent (tciTab st' t) = numTxnsSent (tciTab st2 t) + 2))"
proof -
  let ?fin = "\<lambda>st3. if myAddr \<noteq> addr then emit [FreeBounceBuf myAddr] (tciFree t st3)
                     else tciFree t st3"
  have run: "ofi_put (Suc fuel) cfg addr node raddr sz st
               = obind (ofi_put_direct fuel cfg myAddr node sz mrRaddr mrKey t st2)
                   (\<lambda>st3. Ret (?fin st3))"
    using fits key src ctx
    by (cases "ofi_put_direct fuel cfg myAddr node sz mrRaddr mrKey t st2")
       (simp_all add: ofi_put_body_def obind_def)
  show ?thesis
  proof (intro conjI impI)
    assume a: "bound (tciTab st2 t) \<and> sz \<le> inject_size cfg"
    let ?b' = "bitmapSet (case putBitmap pd of
                            None \<Rightarrow> bitmapAlloc (chpl_numNodes cfg) | Some b \<Rightarrow> b) node"
    let ?st3 = "(incr_numTxnsSent t (emit [Fi_inject_write t myAddr sz node mrRaddr mrKey] st2))
                    \<lparr> prvData := Some (pd\<lparr> putBitmap := Some ?b' \<rparr>) \<rparr>"
    from a have d: "ofi_put_direct fuel cfg myAddr node sz mrRaddr mrKey t st2 = Ret ?st3"
      using ofi_put_direct_inject [OF mo cq _ _ prv] by simp
    have r: "ofi_put (Suc fuel) cfg addr node raddr sz st = Ret (?fin ?st3)"
      unfolding run d by (simp add: obind_def)
    have t: "bitmapTest ?b' node"
      if "node < chpl_numNodes cfg
          \<and> (\<forall>b. putBitmap pd = Some b \<longrightarrow> bitmapElemIdx node < length (bm_map b))"
    proof (rule bitmapTest_bitmapSet, cases "putBitmap pd")
      case None
      with that bitmapElemIdx_in_range [of node "chpl_numNodes cfg"]
      show "bitmapElemIdx node
              < length (bm_map (case putBitmap pd of
                                  None \<Rightarrow> bitmapAlloc (chpl_numNodes cfg) | Some b \<Rightarrow> b))"
        by (simp add: bitmapAlloc_def)
    next
      case (Some b)
      with that
      show "bitmapElemIdx node
              < length (bm_map (case putBitmap pd of
                                  None \<Rightarrow> bitmapAlloc (chpl_numNodes cfg) | Some b \<Rightarrow> b))"
        by simp
    qed
    show "\<exists>st' b'. ofi_put (Suc fuel) cfg addr node raddr sz st = Ret st'
              \<and> trace st' = trace st2 @ Fi_inject_write t myAddr sz node mrRaddr mrKey
                               # (if myAddr \<noteq> addr then [FreeBounceBuf myAddr] else [])
              \<and> b' = bitmapSet (case putBitmap pd of
                                   None \<Rightarrow> bitmapAlloc (chpl_numNodes cfg)
                                 | Some b \<Rightarrow> b) node
              \<and> prvData st' = Some (pd\<lparr> putBitmap := Some b' \<rparr>)
              \<and> (node < chpl_numNodes cfg
                   \<and> (\<forall>b. putBitmap pd = Some b \<longrightarrow> bitmapElemIdx node < length (bm_map b))
                  \<longrightarrow> bitmapTest b' node)
              \<and> numTxnsSent (tciTab st' t) = numTxnsSent (tciTab st2 t) + 1
              \<and> numTxnsOut (tciTab st' t) = numTxnsOut (tciTab st2 t)"
      using r t
      by (intro exI [of _ "?fin ?st3"] exI [of _ ?b'])
         (simp add: incr_numTxnsSent_def upd_tci_def emit_def)
  next
    assume a: "\<not> (bound (tciTab st2 t) \<and> sz \<le> inject_size cfg)
           \<and> mrGetKey cfg node (orderDummyMap cfg node) 1 = Some (dKey, dRaddr)
           \<and> mrGetDesc cfg (orderDummy cfg) 1 \<noteq> None"
    then have x: "\<not> (bound (tciTab st2 t) \<and> sz \<le> inject_size cfg)"
      "mrGetKey cfg node (orderDummyMap cfg node) 1 = Some (dKey, dRaddr)"
      "mrGetDesc cfg (orderDummy cfg) 1 \<noteq> None"
      by simp_all
    obtain st3 where
      d: "ofi_put_direct fuel cfg myAddr node sz mrRaddr mrKey t st2 = Ret st3"
      and tr: "trace st3 = trace st2 @ [Fi_write t myAddr sz node mrRaddr mrKey Ctx_NULL,
                               Fi_read t (orderDummy cfg) 1 node dRaddr dKey Ctx_Done,
                               WaitForTxnComplete t Ctx_Done]"
      and p: "prvData st3 = prvData st2"
      and n: "numTxnsSent (tciTab st3 t) = numTxnsSent (tciTab st2 t) + 2"
      using ofi_put_direct_write [OF mo cq x] by blast
    have r: "ofi_put (Suc fuel) cfg addr node raddr sz st = Ret (?fin st3)"
      unfolding run d by (simp add: obind_def)
    show "\<exists>st'. ofi_put (Suc fuel) cfg addr node raddr sz st = Ret st'
              \<and> trace st' = trace st2 @ [Fi_write t myAddr sz node mrRaddr mrKey Ctx_NULL,
                                        Fi_read t (orderDummy cfg) 1 node dRaddr dKey Ctx_Done,
                                        WaitForTxnComplete t Ctx_Done]
                               @ (if myAddr \<noteq> addr then [FreeBounceBuf myAddr] else [])
              \<and> prvData st' = prvData st2
              \<and> numTxnsSent (tciTab st' t) = numTxnsSent (tciTab st2 t) + 2"
      using r tr p n
      by (intro exI [of _ "?fin st3"]) (simp add: emit_def)
  qed
qed


theorem ofi_put_message_order_witness:
  "\<not> haveDeliveryComplete ex_cfg \<and> (2 :: nat) \<le> max_msg_size ex_cfg
   \<and> mrGetKey ex_cfg 1 8192 2 = Some (0, 8192)
   \<and> tciAlloc 1 ex_cfg ((ex_state True True)\<lparr> ttcip := Some 0 \<rparr>)
        = Ret (0, (ex_state True True)\<lparr> ttcip := Some 0 \<rparr>)
   \<and> bound (tciTab ((ex_state True True)\<lparr> ttcip := Some 0 \<rparr>) 0) \<and> 2 \<le> inject_size ex_cfg
   \<and> (\<exists>st' b'. ofi_put (Suc 1) ex_cfg 4096 1 8192 2 ((ex_state True True)\<lparr> ttcip := Some 0 \<rparr>)
                  = Ret st'
          \<and> trace st' = [Fi_inject_write 0 4096 2 1 8192 0]
          \<and> prvData st' = Some (ex_prv\<lparr> putBitmap := Some b' \<rparr>)
          \<and> bitmapTest b' 1
          \<and> numTxnsSent (tciTab st' 0) = 1 \<and> numTxnsOut (tciTab st' 0) = 0)
   \<and> (\<exists>st'. ofi_put (Suc 1) ex_cfg 4096 1 8192 4 ((ex_state True True)\<lparr> ttcip := Some 0 \<rparr>)
               = Ret st'
          \<and> trace st' = [Fi_write 0 4096 4 1 8192 0 Ctx_NULL,
                         Fi_read 0 4096 1 1 4096 0 Ctx_Done,
                         WaitForTxnComplete 0 Ctx_Done]
          \<and> prvData st' = Some ex_prv)"
proof -
  let ?st = "(ex_state True True)\<lparr> ttcip := Some 0 \<rparr>"
  have mo: "\<not> haveDeliveryComplete ex_cfg" by (simp add: ex_cfg_def)
  have fits: "(2 :: nat) \<le> max_msg_size ex_cfg" "(4 :: nat) \<le> max_msg_size ex_cfg"
    by (simp_all add: ex_cfg_def)
  have key: "mrGetKey ex_cfg 1 8192 2 = Some (0, 8192)" "mrGetKey ex_cfg 1 8192 4 = Some (0, 8192)"
    by (simp_all add: mrGetKey_def ex_cfg_def)
  have src: "bounce_if ex_cfg (mrGetDesc ex_cfg 4096 2 \<noteq> None)
                (mrGetDesc ex_cfg (allocBounceBuf ex_cfg 2) 2 \<noteq> None) True 4096 2 ?st
                = Ret (4096, ?st)"
    "bounce_if ex_cfg (mrGetDesc ex_cfg 4096 4 \<noteq> None)
                (mrGetDesc ex_cfg (allocBounceBuf ex_cfg 4) 4 \<noteq> None) True 4096 4 ?st
                = Ret (4096, ?st)"
    by (simp_all add: bounce_if_def mrGetDesc_def ex_cfg_def)
  have ctx: "tciAlloc 1 ex_cfg ?st = Ret (0, ?st)"
    by (simp add: ex_run_defs)
  have cq: "txCQ (tciTab ?st 0)" and bd: "bound (tciTab ?st 0)"
    and prv: "prvData ?st = Some ex_prv"
    by (simp_all add: ex_state_def ex_tci_def)
  have inj: "(2 :: nat) \<le> inject_size ex_cfg" "\<not> (4 :: nat) \<le> inject_size ex_cfg"
    by (simp_all add: ex_cfg_def)
  have dummy: "mrGetKey ex_cfg 1 (orderDummyMap ex_cfg 1) 1 = Some (0, 4096)"
    "mrGetDesc ex_cfg (orderDummy ex_cfg) 1 \<noteq> None"
    by (simp_all add: mrGetKey_def mrGetDesc_def ex_cfg_def)
  have nodes: "1 < chpl_numNodes ex_cfg" "putBitmap ex_prv = None" "orderDummy ex_cfg = 4096"
    by (simp_all add: ex_cfg_def ex_prv_def)
  have p1: "bound (tciTab ?st 0) \<and> 2 \<le> inject_size ex_cfg"
    using bd inj(1) by (intro conjI)
  have p2: "\<not> (bound (tciTab ?st 0) \<and> 4 \<le> inject_size ex_cfg)
           \<and> mrGetKey ex_cfg 1 (orderDummyMap ex_cfg 1) 1 = Some (0, 4096)
           \<and> mrGetDesc ex_cfg (orderDummy ex_cfg) 1 \<noteq> None"
    using inj(2) dummy by simp
  from ofi_put_message_order [OF mo fits(1) key(1) src(1) ctx cq prv, THEN conjunct1,
      THEN mp, OF p1]
  obtain st' b' where
    r: "ofi_put (Suc 1) ex_cfg 4096 1 8192 2 ?st = Ret st'"
    and t: "trace st' = trace ?st @ Fi_inject_write 0 4096 2 1 8192 0
                          # (if (4096 :: nat) \<noteq> 4096 then [FreeBounceBuf 4096] else [])"
    and b: "b' = bitmapSet (case putBitmap ex_prv of
                              None \<Rightarrow> bitmapAlloc (chpl_numNodes ex_cfg) | Some b \<Rightarrow> b) 1"
    and p: "prvData st' = Some (ex_prv\<lparr> putBitmap := Some b' \<rparr>)"
    and n: "numTxnsSent (tciTab st' 0) = numTxnsSent (tciTab ?st 0) + 1"
      "numTxnsOut (tciTab st' 0) = numTxnsOut (tciTab ?st 0)"
    by blast
  have bt: "bitmapTest b' 1"
    unfolding b by (simp add: nodes bitmapTest_fresh ex_cfg_def)
  have a: "\<exists>st' b'. ofi_put (Suc 1) ex_cfg 4096 1 8192 2 ?st = Ret st'
          \<and> trace st' = [Fi_inject_write 0 4096 2 1 8192 0]
          \<and> prvData st' = Some (ex_prv\<lparr> putBitmap := Some b' \<rparr>)
          \<and> bitmapTest b' 1
          \<and> numTxnsSent (tciTab st' 0) = 1 \<and> numTxnsOut (tciTab st' 0) = 0"
    using r t p bt n
    by (intro exI [of _ st'] exI [of _ b'] conjI) (simp_all add: ex_state_def ex_tci_def)
  from ofi_put_message_order [OF mo fits(2) key(2) src(2) ctx cq prv, THEN conjunct2,
      THEN mp, OF p2]
  obtain st'' where
    r': "ofi_put (Suc 1) ex_cfg 4096 1 8192 4 ?st = Ret st''"
    and t': "trace st'' = trace ?st @ [Fi_write 0 4096 4 1 8192 0 Ctx_NULL,
                                       Fi_read 0 (orderDummy ex_cfg) 1 1 4096 0 Ctx_Done,
                                       WaitForTxnComplete 0 Ctx_Done]
                           @ (if (4096 :: nat) \<noteq> 4096 then [FreeBounceBuf 4096] else [])"
    and p': "prvData st'' = prvData ?st"
    by blast
  have b: "\<exists>st'. ofi_put (Suc 1) ex_cfg 4096 1 8192 4 ?st = Ret st'
          \<and> trace st' = [Fi_write 0 4096 4 1 8192 0 Ctx_NULL,
                         Fi_read 0 4096 1 1 4096 0 Ctx_Done,
                         WaitForTxnComplete 0 Ctx_Done]
          \<and> prvData st' = Some ex_prv"
    using r' t' p'
    by (intro exI [of _ st''] conjI) (simp_all add: ex_state_def ex_tci_def nodes)
  from mo fits(1) key(1) ctx bd inj(1) a b show ?thesis by (intro conjI)
qed

lemma ofi_put_unfold:
  "0 < fuel \<Longrightarrow>
   ofi_put fuel cfg addr node raddr sz st
     = (if sz > max_msg_size cfg
        then chunk_loop (fuel - 1) (\<lambda>a r c. ofi_put (fuel - 1) cfg a node r c) addr raddr sz 0
               (max_msg_size cfg) st
        else ofi_put_body (fuel - 1) cfg addr node raddr sz st)"
  by (cases fuel) simp_all

text \<open>
  A PUT of ten bytes with a maximum message size of four and an inject size of two, on a
  bound context: the last chunk has two bytes and is injected, so the call returns with
  no wait after its last write.
\<close>

theorem ofi_put_split_counterexample:
  "\<not> haveDeliveryComplete ex_cfg \<and> inject_size ex_cfg < 10
   \<and> mrGetKey ex_cfg 1 8192 10 = Some (0, 8192)
   \<and> bound (tciTab ((ex_state True True)\<lparr> ttcip := Some 0 \<rparr>) 0)
   \<and> outcome_trace (ofi_put 5 ex_cfg 4096 1 8192 10 ((ex_state True True)\<lparr> ttcip := Some 0 \<rparr>))
       = Some [Fi_write 0 4096 4 1 8192 0 Ctx_NULL,
               Fi_read 0 4096 1 1 4096 0 Ctx_Done,
               WaitForTxnComplete 0 Ctx_Done,
               Fi_write 0 4100 4 1 8196 0 Ctx_NULL,
               Fi_read 0 4096 1 1 4096 0 Ctx_Done,
               WaitForTxnComplete 0 Ctx_Done,
               Fi_inject_write 0 4104 2 1 8200 0]"
  by (simp add: outcome_trace_def ofi_put_unfold ofi_put_body_def ofi_put_direct_def
      ofi_get_ll_def bitmapAlloc_def bitmapSet_def ex_run_defs)

section \<open>Transfers larger than the provider's maximum message size\<close>

declare chunk_loop.simps [simp del]

lemma obind_Ret [simp]: "obind (Ret x) f = f x"
  by (simp add: obind_def)

lemma obind_assoc: "obind (obind r f) g = obind r (\<lambda>x. obind (f x) g)"
  by (cases r) (simp_all add: obind_def)

lemma fold_obind:
  "fold (\<lambda>j r. obind r (F j)) js r
     = obind r (\<lambda>st. fold (\<lambda>j r. obind r (F j)) js (Ret st))"
proof (induction js arbitrary: r)
  case Nil
  show ?case by (cases r) (simp_all add: obind_def)
next
  case (Cons j js)
  have "fold (\<lambda>j r. obind r (F j)) (j # js) r = fold (\<lambda>j r. obind r (F j)) js (obind r (F j))"
    by simp
  also have "\<dots> = obind (obind r (F j)) (\<lambda>st. fold (\<lambda>j r. obind r (F j)) js (Ret st))"
    by (rule Cons.IH)
  also have "\<dots> = obind r (\<lambda>x. obind (F j x) (\<lambda>st. fold (\<lambda>j r. obind r (F j)) js (Ret st)))"
    by (rule obind_assoc)
  also have "\<dots> = obind r (\<lambda>x. fold (\<lambda>j r. obind r (F j)) js (F j x))"
    by (simp only: Cons.IH [symmetric])
  also have "\<dots> = obind r (\<lambda>st. fold (\<lambda>j r. obind r (F j)) (j # js) (Ret st))"
    by simp
  finally show ?case .
qed

lemma chunk_count_bounds:
  assumes "0 < (m :: nat)" and "n = (sz + m - 1) div m"
  shows "sz \<le> n * m" and "k < n \<Longrightarrow> k * m < sz"
proof -
  have d: "(sz + m - 1) = n * m + (sz + m - 1) mod m"
    using assms(2) by simp
  have r: "(sz + m - 1) mod m < m" using assms(1) by simp
  from d r show "sz \<le> n * m" by linarith
  assume "k < n"
  then have "Suc k \<le> n" by simp
  then have "Suc k * m \<le> n * m" by (rule mult_le_mono1)
  with d have "k * m + m \<le> sz + m - 1" by simp
  with assms(1) show "k * m < sz" by linarith
qed

lemma chunk_loop_done: "sz \<le> i \<Longrightarrow> chunk_loop fuel xfer addr raddr sz i c st = Ret st"
  by (simp add: chunk_loop.simps)

lemma chunk_loop_from:
  assumes "0 < m" and "n = (sz + m - 1) div m" and "k \<le> n" and "n - k \<le> fuel"
  shows "chunk_loop fuel xfer addr raddr sz (k * m) m st
           = fold (\<lambda>j r. obind r (xfer (addr + j * m) (raddr + j * m) (min m (sz - j * m))))
               [k ..< n] (Ret st)"
  using assms(3,4)
proof (induction fuel arbitrary: k st)
  case 0
  then have "k = n" by simp
  with chunk_count_bounds(1) [OF assms(1,2)] show ?case by (simp add: chunk_loop_done)
next
  case (Suc f)
  let ?F = "\<lambda>j. xfer (addr + j * m) (raddr + j * m) (min m (sz - j * m))"
  show ?case
  proof (cases "k = n")
    case True
    with chunk_count_bounds(1) [OF assms(1,2)] show ?thesis by (simp add: chunk_loop_done)
  next
    case False
    with Suc.prems have kn: "k < n" by simp
    from chunk_count_bounds(2) [OF assms(1,2) kn] have lt: "k * m < sz" .
    let ?c = "min m (sz - k * m)"
    have c: "(if m > sz - k * m then sz - k * m else m) = ?c" by (simp add: min_def)
    have next_loop: "chunk_loop f xfer addr raddr sz (k * m + ?c) ?c st'
            = fold (\<lambda>j r. obind r (?F j)) [Suc k ..< n] (Ret st')" for st'
    proof (cases "m \<le> sz - k * m")
      case True
      then have "?c = m" by simp
      moreover have "chunk_loop f xfer addr raddr sz (Suc k * m) m st'
            = fold (\<lambda>j r. obind r (?F j)) [Suc k ..< n] (Ret st')"
        by (rule Suc.IH) (use kn Suc.prems in simp_all)
      ultimately show ?thesis by (simp add: add.commute)
    next
      case False
      then have cm: "?c = sz - k * m" and "sz < Suc k * m" by simp_all
      with chunk_count_bounds(2) [OF assms(1,2), of "Suc k"] have "\<not> Suc k < n" by auto
      then have "fold (\<lambda>j r. obind r (?F j)) [Suc k ..< n] (Ret st') = Ret st'" by simp
      moreover have "chunk_loop f xfer addr raddr sz (k * m + ?c) ?c st' = Ret st'"
        by (rule chunk_loop_done) (use lt cm in simp)
      ultimately show ?thesis by (simp only:)
    qed
    have "chunk_loop (Suc f) xfer addr raddr sz (k * m) m st
            = obind (?F k st) (chunk_loop f xfer addr raddr sz (k * m + ?c) ?c)"
      using lt by (simp add: c Let_def chunk_loop.simps [of "Suc f"])
    also have "\<dots> = obind (?F k st) (\<lambda>st'. fold (\<lambda>j r. obind r (?F j)) [Suc k ..< n] (Ret st'))"
      by (rule arg_cong [where f = "obind (?F k st)"], rule ext, rule next_loop)
    also have "\<dots> = fold (\<lambda>j r. obind r (?F j)) [Suc k ..< n] (obind (Ret st) (?F k))"
      by (simp only: fold_obind [symmetric] obind_Ret)
    also have "\<dots> = fold (\<lambda>j r. obind r (?F j)) [k ..< n] (Ret st)"
      using kn by (simp add: upt_conv_Cons)
    finally show ?thesis .
  qed
qed

lemma chunk_loop_chunks:
  assumes "0 < m" and "(sz + m - 1) div m \<le> fuel"
  shows "chunk_loop fuel xfer addr raddr sz 0 m st
           = fold (\<lambda>j r. obind r (xfer (addr + j * m) (raddr + j * m) (min m (sz - j * m))))
               [0 ..< (sz + m - 1) div m] (Ret st)"
  using chunk_loop_from [OF assms(1) refl, of 0 sz fuel xfer addr raddr st] assms(2) by simp

text \<open>The chunks, one after the other, make the whole transfer.\<close>

lemma logical_transfer_append:
  "logical_transfer src (a + i) (r + i) c (logical_transfer src a r i dst)
     = logical_transfer src a r (i + c) dst"
  by (rule ext) (auto simp: logical_transfer_def)

lemma logical_transfer_0: "logical_transfer src a r 0 dst = dst"
  by (rule ext) (auto simp: logical_transfer_def)

lemma chunk_loop_logical:
  assumes "0 < c" and "i \<le> sz" and "sz - i \<le> fuel"
  shows "chunk_loop fuel (\<lambda>a r n mem. Ret (logical_transfer src a r n mem)) addr raddr sz i c
           (logical_transfer src addr raddr i dst)
         = Ret (logical_transfer src addr raddr sz dst)"
  using assms
proof (induction fuel arbitrary: i c)
  case 0
  then have "i = sz" by simp
  then show ?case by (simp add: chunk_loop_done)
next
  case (Suc f)
  show ?case
  proof (cases "i < sz")
    case False
    with Suc.prems have "i = sz" by simp
    then show ?thesis by (simp add: chunk_loop_done)
  next
    case True
    let ?c = "if c > sz - i then sz - i else c"
    have c: "0 < ?c" "i + ?c \<le> sz" "sz - (i + ?c) \<le> f"
      using True Suc.prems by auto
    have "chunk_loop (Suc f) (\<lambda>a r n mem. Ret (logical_transfer src a r n mem)) addr raddr sz i c
           (logical_transfer src addr raddr i dst)
        = chunk_loop f (\<lambda>a r n mem. Ret (logical_transfer src a r n mem)) addr raddr sz
            (i + ?c) ?c (logical_transfer src addr raddr (i + ?c) dst)"
      using True
      by (simp add: Let_def logical_transfer_append chunk_loop.simps [of "Suc f"])
    also have "\<dots> = Ret (logical_transfer src addr raddr sz dst)"
      by (rule Suc.IH [OF c])
    finally show ?thesis .
  qed
qed


lemma chunk_sizes:
  assumes "0 < (m :: nat)" and "n = (sz + m - 1) div m" and "k < n"
  shows "0 < min m (sz - k * m)" and "min m (sz - k * m) \<le> m"
    and "k * m + min m (sz - k * m) = (if Suc k < n then Suc k * m else sz)"
proof -
  from chunk_count_bounds(2) [OF assms] have lt: "k * m < sz" .
  with assms(1) show "0 < min m (sz - k * m)" by simp
  show "min m (sz - k * m) \<le> m" by simp
  show "k * m + min m (sz - k * m) = (if Suc k < n then Suc k * m else sz)"
  proof (cases "Suc k < n")
    case True
    from chunk_count_bounds(2) [OF assms(1,2) True] have "Suc k * m < sz" .
    with True show ?thesis by (simp add: min_def)
  next
    case False
    with assms(3) have "n = Suc k" by simp
    with chunk_count_bounds(1) [OF assms(1,2)] have "sz \<le> Suc k * m" by simp
    with False lt show ?thesis by (simp add: min_def) arith
  qed
qed

lemma fold_logical_transfer:
  assumes "0 < (m :: nat)" and "n = (sz + m - 1) div m" and "k \<le> n"
  shows "fold (\<lambda>j r. obind r (\<lambda>mem. Ret (logical_transfer src (a + j * m) (b + j * m)
                                           (min m (sz - j * m)) mem)))
           [0 ..< k] (Ret dst)
         = Ret (logical_transfer src a b (min sz (k * m)) dst)"
  using assms(3)
proof (induction k)
  case 0
  show ?case by (simp add: logical_transfer_0)
next
  case (Suc k)
  then have kn: "k < n" by simp
  from chunk_count_bounds(2) [OF assms(1,2) kn] have lt: "k * m < sz" .
  have e: "k * m + min m (sz - k * m) = min sz (Suc k * m)"
    using lt by (simp add: min_def) arith
  from Suc have ih: "fold (\<lambda>j r. obind r (\<lambda>mem. Ret (logical_transfer src (a + j * m) (b + j * m)
                                           (min m (sz - j * m)) mem)))
           [0 ..< k] (Ret dst)
         = Ret (logical_transfer src a b (k * m) dst)"
    using lt by (simp add: min_def)
  show ?case
    by (simp only: upt_Suc_append [OF le0] fold_append o_apply fold.simps id_apply ih obind_Ret
        logical_transfer_append e)
qed

lemma ofi_put_split:
  "max_msg_size cfg < sz \<Longrightarrow>
   ofi_put (Suc fuel) cfg addr node raddr sz st
     = chunk_loop fuel (\<lambda>a r c. ofi_put fuel cfg a node r c) addr raddr sz 0 (max_msg_size cfg) st"
  by simp

lemma ofi_get_split:
  "max_msg_size cfg < sz \<Longrightarrow>
   ofi_get (Suc fuel) cfg addr node raddr sz st
     = chunk_loop fuel (\<lambda>a r c. ofi_get fuel cfg a node r c) addr raddr sz 0 (max_msg_size cfg) st"
  by simp

text \<open>
  A provider whose maximum message size is zero never gets the loop to advance: whatever
  the fuel, the loop does not return.
\<close>

lemma chunk_loop_stuck:
  assumes "\<And>a r s. \<exists>s'. xfer a r 0 s = Ret s'" and "0 < sz"
  shows "chunk_loop fuel xfer addr raddr sz 0 0 st = OutOfFuel"
proof (induction fuel arbitrary: st)
  case 0
  from assms(2) show ?case by (simp add: chunk_loop.simps)
next
  case (Suc f)
  from assms(1) obtain s' where "xfer addr raddr 0 st = Ret s'" by blast
  with assms(2) Suc.IH [of s'] show ?case
    by (simp add: chunk_loop.simps [of "Suc f"])
qed

section \<open>The transmission of an active-message request\<close>

lemma mcm_event_not_am_send: "is_mcm_event e \<Longrightarrow> \<not> is_am_send e"
  by (cases e) (simp_all add: is_mcm_event_def is_am_send_def)

lemma bounce_if_no_send:
  "bounce_if cfg r br c p sz st = Ret (q, st') \<Longrightarrow> trace_grows (\<lambda>e. \<not> is_am_send e) st st'"
  by (auto simp: bounce_if_def CHK_TRUE_def trace_grows_def is_am_send_def split: if_splits)

lemma amRequestCommon_mcm_grows:
  "amRequestCommon_mcm fuel cfg node req t st = Ret st' \<Longrightarrow> trace_grows is_mcm_event st st'"
  by (auto simp: amRequestCommon_mcm_def split: if_splits
      intro: waitForPutsVisAllNodes_grows waitForPutsVisOneNode_grows)

text \<open>
  Claim C5.  Every call of \<^verbatim>\<open>amRequestCommon\<close> that returns went through these steps,
  each from the state the one before it left: the done flag, which is there exactly when
  the call is blocking; the transmit context \<open>t\<close>; the copy of the request; the step for
  the memory consistency model; the transmission of the request, with the done flag
  stored in it if there is one; the clean-up.  The transmission is one \<^verbatim>\<open>fi_inject\<close>
  exactly when the call is not blocking and the request is no larger than the provider's
  inject size: then \<^verbatim>\<open>numTxnsSent\<close> of \<open>t\<close> goes up by one and \<^verbatim>\<open>numTxnsOut\<close> stays.
  Otherwise it is one \<^verbatim>\<open>fi_send\<close>, both counters go up by one, and the wait for the
  completion of the send follows at once; \<open>st_w\<close> is the state in which the wait starts.
  In the events of the whole call nothing before the transmission is a \<^verbatim>\<open>fi_send\<close> or a
  \<^verbatim>\<open>fi_inject\<close>, and nothing after it is a fabric operation.
\<close>

theorem amRequestCommon_transmission:
  assumes "amRequestCommon fuel cfg node req reqAddr reqSize blocking y tcip st = Ret st'"
  shows "\<exists>pAmDone t st1 myReq st2 st3 st4 req1 tx pre post.
      amRequestCommon_done cfg blocking = Ret pAmDone
    \<and> (pAmDone = None) = (\<not> blocking)
    \<and> req1 = (if blocking then req\<lparr> b_pAmDone := pAmDone \<rparr> else req)
    \<and> with_tcip fuel cfg tcip st = Ret (t, st1)
    \<and> bounce_if cfg (mrGetDesc cfg reqAddr reqSize \<noteq> None)
         (mrGetDesc cfg (allocBounceBuf cfg reqSize) reqSize \<noteq> None) True reqAddr reqSize st1
         = Ret (myReq, st2)
    \<and> amRequestCommon_mcm fuel cfg node req1 t st2 = Ret st3
    \<and> amRequestCommon_send cfg node req1 reqSize pAmDone t st3 = Ret st4
    \<and> st' = amRequestCommon_finish cfg reqAddr myReq pAmDone tcip t st4
    \<and> tx = (if \<not> blocking \<and> reqSize \<le> inject_size cfg
             then [Fi_inject t req1 reqSize node]
             else [Fi_send t req1 reqSize node, WaitForTxnComplete t Ctx_Done])
    \<and> trace st4 = trace st3 @ tx
    \<and> numTxnsSent (tciTab st4 t) = numTxnsSent (tciTab st3 t) + 1
    \<and> (if \<not> blocking \<and> reqSize \<le> inject_size cfg
        then numTxnsOut (tciTab st4 t) = numTxnsOut (tciTab st3 t)
        else (\<exists>st_w. waitForTxnComplete cfg t Ctx_Done st_w = Ret st4
                \<and> trace st_w = trace st3 @ [Fi_send t req1 reqSize node]
                \<and> numTxnsOut (tciTab st_w t) = numTxnsOut (tciTab st3 t) + 1
                \<and> numTxnsSent (tciTab st_w t) = numTxnsSent (tciTab st3 t) + 1))
    \<and> trace st' = trace st @ pre @ tx @ post
    \<and> (\<forall>e \<in> set pre. \<not> is_am_send e)
    \<and> (\<forall>e \<in> set post. \<not> is_fabric_op e)"
proof -
  from assms obtain pAmDone t st1 myReq st2 st3 st4 where
    d: "amRequestCommon_done cfg blocking = Ret pAmDone"
    and w: "with_tcip fuel cfg tcip st = Ret (t, st1)"
    and b: "bounce_if cfg (mrGetDesc cfg reqAddr reqSize \<noteq> None)
       (mrGetDesc cfg (allocBounceBuf cfg reqSize) reqSize \<noteq> None) True reqAddr reqSize st1
       = Ret (myReq, st2)"
    and m: "amRequestCommon_mcm fuel cfg node (if blocking then req\<lparr> b_pAmDone := pAmDone \<rparr> else req)
       t st2 = Ret st3"
    and snd: "amRequestCommon_send cfg node (if blocking then req\<lparr> b_pAmDone := pAmDone \<rparr> else req)
       reqSize pAmDone t st3 = Ret st4"
    and fin: "st' = amRequestCommon_finish cfg reqAddr myReq pAmDone tcip t st4"
    by (rule amRequestCommon_RetE)
  let ?req1 = "if blocking then req\<lparr> b_pAmDone := pAmDone \<rparr> else req"
  let ?tx = "if \<not> blocking \<and> reqSize \<le> inject_size cfg
             then [Fi_inject t ?req1 reqSize node]
             else [Fi_send t ?req1 reqSize node, WaitForTxnComplete t Ctx_Done]"
  note nb = amRequestCommon_done_None [OF d]
  have g1: "trace_grows (\<lambda>e. \<not> is_am_send e) st st1"
    by (rule trace_grows_mono [OF with_tcip_trace [OF w]]) (rule mcm_event_not_am_send)
  have g2: "trace_grows (\<lambda>e. \<not> is_am_send e) st1 st2"
    by (rule bounce_if_no_send [OF b])
  have g3: "trace_grows (\<lambda>e. \<not> is_am_send e) st2 st3"
    by (rule trace_grows_mono [OF amRequestCommon_mcm_grows [OF m]]) (rule mcm_event_not_am_send)
  from trace_grows_trans [OF trace_grows_trans [OF g1 g2] g3] obtain pre where
    pre: "trace st3 = trace st @ pre" "\<forall>e \<in> set pre. \<not> is_am_send e"
    unfolding trace_grows_def by blast
  from amRequestCommon_finish_grows [of st4 cfg reqAddr myReq pAmDone tcip t] obtain post where
    post: "trace st' = trace st4 @ post" "\<forall>e \<in> set post. \<not> is_fabric_op e"
    unfolding trace_grows_def fin by blast
  let ?inj = "\<not> blocking \<and> reqSize \<le> inject_size cfg"
  let ?cnt = "if ?inj
        then numTxnsOut (tciTab st4 t) = numTxnsOut (tciTab st3 t)
        else (\<exists>st_w. waitForTxnComplete cfg t Ctx_Done st_w = Ret st4
                \<and> trace st_w = trace st3 @ [Fi_send t ?req1 reqSize node]
                \<and> numTxnsOut (tciTab st_w t) = numTxnsOut (tciTab st3 t) + 1
                \<and> numTxnsSent (tciTab st_w t) = numTxnsSent (tciTab st3 t) + 1)"
  have all: "trace st4 = trace st3 @ ?tx
            \<and> numTxnsSent (tciTab st4 t) = numTxnsSent (tciTab st3 t) + 1 \<and> ?cnt"
  proof -
    show ?thesis
    proof (cases ?inj)
      case True
      with nb have "pAmDone = None" "reqSize \<le> inject_size cfg" by simp_all
      from snd [unfolded amRequestCommon_send_inject [OF this]]
      have st4: "st4 = incr_numTxnsSent t (emit [Fi_inject t ?req1 reqSize node] st3)" by simp
      have "trace st4 = trace st3 @ [Fi_inject t ?req1 reqSize node]"
        and "numTxnsOut (tciTab st4 t) = numTxnsOut (tciTab st3 t)"
        and "numTxnsSent (tciTab st4 t) = numTxnsSent (tciTab st3 t) + 1"
        unfolding st4 by (simp_all add: incr_numTxnsSent_def upd_tci_def emit_def)
      then show ?thesis unfolding if_P [OF True] by (intro conjI)
    next
      case False
      with nb have "\<not> (pAmDone = None \<and> reqSize \<le> inject_size cfg)" by simp
      note wt = snd [unfolded amRequestCommon_send_normal [OF this]]
      let ?st_w = "incr_numTxnsSent t (incr_numTxnsOut t (emit [Fi_send t ?req1 reqSize node] st3))"
      have sw: "trace ?st_w = trace st3 @ [Fi_send t ?req1 reqSize node]"
        "numTxnsOut (tciTab ?st_w t) = numTxnsOut (tciTab st3 t) + 1"
        "numTxnsSent (tciTab ?st_w t) = numTxnsSent (tciTab st3 t) + 1"
        by (simp_all add: incr_numTxnsSent_def incr_numTxnsOut_def upd_tci_def emit_def)
      have t4: "trace st4 = trace st3 @ [Fi_send t ?req1 reqSize node, WaitForTxnComplete t Ctx_Done]"
        using waitForTxnComplete_trace [OF wt] sw(1) by simp
      have s4: "numTxnsSent (tciTab st4 t) = numTxnsSent (tciTab st3 t) + 1"
        using wt sw(3) unfolding waitForTxnComplete_def
        by (auto dest!: numTxnsSent_checkTxCmpls simp: emit_def)
      have "\<exists>st_w. waitForTxnComplete cfg t Ctx_Done st_w = Ret st4
                      \<and> trace st_w = trace st3 @ [Fi_send t ?req1 reqSize node]
                      \<and> numTxnsOut (tciTab st_w t) = numTxnsOut (tciTab st3 t) + 1
                      \<and> numTxnsSent (tciTab st_w t) = numTxnsSent (tciTab st3 t) + 1"
        using wt sw by (intro exI [of _ ?st_w] conjI)
      with t4 s4 show ?thesis unfolding if_not_P [OF False] by (intro conjI)
    qed
  qed
  note tx = all [THEN conjunct1] and ns = all [THEN conjunct2, THEN conjunct1]
    and cnt = all [THEN conjunct2, THEN conjunct2]
  have whole: "trace st' = trace st @ pre @ ?tx @ post"
    unfolding post(1) tx pre(1) by (simp only: append_assoc)
  from d nb refl [of ?req1] w b m snd fin refl [of ?tx] tx ns cnt whole pre(2) post(2)
  show ?thesis
    by (intro exI [of _ pAmDone] exI [of _ t] exI [of _ st1] exI [of _ myReq] exI [of _ st2]
        exI [of _ st3] exI [of _ st4] exI [of _ ?req1] exI [of _ ?tx] exI [of _ pre]
        exI [of _ post] conjI)
qed


theorem amRequestCommon_transmission_witness:
  "(\<exists>st'. amRequestCommon 1 ex_cfg 1
            \<lparr> b_op = am_opNop, b_node = 0, b_pAmDone = None, req_payload = Payload_none \<rparr>
            12320 2 False True (Some 0) (ex_state True True) = Ret st'
      \<and> trace st' = [Fi_inject 0 \<lparr> b_op = am_opNop, b_node = 0, b_pAmDone = None,
                                   req_payload = Payload_none \<rparr> 2 1]
      \<and> numTxnsSent (tciTab st' 0) = 1 \<and> numTxnsOut (tciTab st' 0) = 0
      \<and> (\<exists>t (st3 :: comm_state) (st4 :: comm_state) req1 pre post.
            trace st4 = trace st3 @ [Fi_inject t req1 2 1]
          \<and> numTxnsSent (tciTab st4 t) = numTxnsSent (tciTab st3 t) + 1
          \<and> numTxnsOut (tciTab st4 t) = numTxnsOut (tciTab st3 t)
          \<and> trace st' = trace (ex_state True True) @ pre @ [Fi_inject t req1 2 1] @ post))
   \<and> (\<exists>st'. amRequestCommon 1 ex_cfg 1
            \<lparr> b_op = am_opNop, b_node = 0, b_pAmDone = None, req_payload = Payload_none \<rparr>
            12320 2 True True (Some 0) (ex_state True True) = Ret st'
      \<and> trace st' = [Fi_send 0 \<lparr> b_op = am_opNop, b_node = 0, b_pAmDone = Some 12288,
                                 req_payload = Payload_none \<rparr> 2 1,
                      WaitForTxnComplete 0 Ctx_Done, AmWaitForDone 12288]
      \<and> numTxnsSent (tciTab st' 0) = 1
      \<and> (\<exists>t (st3 :: comm_state) (st4 :: comm_state) st_w req1 pre post.
            trace st4 = trace st3 @ [Fi_send t req1 2 1, WaitForTxnComplete t Ctx_Done]
          \<and> waitForTxnComplete ex_cfg t Ctx_Done st_w = Ret st4
          \<and> numTxnsSent (tciTab st_w t) = numTxnsSent (tciTab st3 t) + 1
          \<and> numTxnsOut (tciTab st_w t) = numTxnsOut (tciTab st3 t) + 1
          \<and> trace st' = trace (ex_state True True) @ pre
                           @ [Fi_send t req1 2 1, WaitForTxnComplete t Ctx_Done] @ post))"
proof -
  let ?req = "\<lparr> b_op = am_opNop, b_node = 0, b_pAmDone = None, req_payload = Payload_none \<rparr>"
  let ?st = "ex_state True True"
  have small: "(2 :: nat) \<le> inject_size ex_cfg" by (simp add: ex_cfg_def)
  obtain st' where r: "amRequestCommon 1 ex_cfg 1 ?req 12320 2 False True (Some 0) ?st = Ret st'"
    and tr: "trace st' = [Fi_inject 0 ?req 2 1]"
    and n: "numTxnsSent (tciTab st' 0) = 1" "numTxnsOut (tciTab st' 0) = 0"
    by (simp add: amRequestCommon_def amRequestCommon_done_def amRequestCommon_mcm_def
        amRequestCommon_send_def amRequestCommon_finish_def ex_run_defs)
  from amRequestCommon_transmission [OF r] obtain pAmDone t st1 myReq st2 st3 st4 req1 tx pre post
    where "amRequestCommon_done ex_cfg False = Ret pAmDone
    \<and> (pAmDone = None) = (\<not> False)
    \<and> req1 = (if False then ?req\<lparr> b_pAmDone := pAmDone \<rparr> else ?req)
    \<and> with_tcip 1 ex_cfg (Some 0) ?st = Ret (t, st1)
    \<and> bounce_if ex_cfg (mrGetDesc ex_cfg 12320 2 \<noteq> None)
         (mrGetDesc ex_cfg (allocBounceBuf ex_cfg 2) 2 \<noteq> None) True 12320 2 st1
         = Ret (myReq, st2)
    \<and> amRequestCommon_mcm 1 ex_cfg 1 req1 t st2 = Ret st3
    \<and> amRequestCommon_send ex_cfg 1 req1 2 pAmDone t st3 = Ret st4
    \<and> st' = amRequestCommon_finish ex_cfg 12320 myReq pAmDone (Some 0) t st4
    \<and> tx = (if \<not> False \<and> 2 \<le> inject_size ex_cfg
             then [Fi_inject t req1 2 1]
             else [Fi_send t req1 2 1, WaitForTxnComplete t Ctx_Done])
    \<and> trace st4 = trace st3 @ tx
    \<and> numTxnsSent (tciTab st4 t) = numTxnsSent (tciTab st3 t) + 1
    \<and> (if \<not> False \<and> 2 \<le> inject_size ex_cfg
        then numTxnsOut (tciTab st4 t) = numTxnsOut (tciTab st3 t)
        else (\<exists>st_w. waitForTxnComplete ex_cfg t Ctx_Done st_w = Ret st4
                \<and> trace st_w = trace st3 @ [Fi_send t req1 2 1]
                \<and> numTxnsOut (tciTab st_w t) = numTxnsOut (tciTab st3 t) + 1
                \<and> numTxnsSent (tciTab st_w t) = numTxnsSent (tciTab st3 t) + 1))
    \<and> trace st' = trace ?st @ pre @ tx @ post
    \<and> (\<forall>e \<in> set pre. \<not> is_am_send e)
    \<and> (\<forall>e \<in> set post. \<not> is_fabric_op e)"
    by (elim exE) (rule that)
  note tx = this [THEN conjunct2, THEN conjunct2, THEN conjunct2, THEN conjunct2, THEN conjunct2, THEN conjunct2, THEN conjunct2, THEN conjunct2, THEN conjunct1] and t4 = this [THEN conjunct2, THEN conjunct2, THEN conjunct2, THEN conjunct2, THEN conjunct2, THEN conjunct2, THEN conjunct2, THEN conjunct2, THEN conjunct2, THEN conjunct1] and ns = this [THEN conjunct2, THEN conjunct2, THEN conjunct2, THEN conjunct2, THEN conjunct2, THEN conjunct2, THEN conjunct2, THEN conjunct2, THEN conjunct2, THEN conjunct2, THEN conjunct1]
    and cnt = this [THEN conjunct2, THEN conjunct2, THEN conjunct2, THEN conjunct2, THEN conjunct2, THEN conjunct2, THEN conjunct2, THEN conjunct2, THEN conjunct2, THEN conjunct2, THEN conjunct2, THEN conjunct1] and whole = this [THEN conjunct2, THEN conjunct2, THEN conjunct2, THEN conjunct2, THEN conjunct2, THEN conjunct2, THEN conjunct2, THEN conjunct2, THEN conjunct2, THEN conjunct2, THEN conjunct2, THEN conjunct2, THEN conjunct1]
  from small tx have tx': "tx = [Fi_inject t req1 2 1]" by simp
  from small cnt have no: "numTxnsOut (tciTab st4 t) = numTxnsOut (tciTab st3 t)"
    by (simp only: simp_thms if_True)
  have a: "\<exists>t (st3 :: comm_state) (st4 :: comm_state) req1 pre post.
            trace st4 = trace st3 @ [Fi_inject t req1 2 1]
          \<and> numTxnsSent (tciTab st4 t) = numTxnsSent (tciTab st3 t) + 1
          \<and> numTxnsOut (tciTab st4 t) = numTxnsOut (tciTab st3 t)
          \<and> trace st' = trace ?st @ pre @ [Fi_inject t req1 2 1] @ post"
    using t4 ns no whole unfolding tx'
    by (intro exI [of _ t] exI [of _ st3] exI [of _ st4] exI [of _ req1] exI [of _ pre]
        exI [of _ post] conjI)
  obtain st'' where
    r2: "amRequestCommon 1 ex_cfg 1 ?req 12320 2 True True (Some 0) ?st = Ret st''"
    and tr2: "trace st'' = [Fi_send 0 \<lparr> b_op = am_opNop, b_node = 0, b_pAmDone = Some 12288,
                                 req_payload = Payload_none \<rparr> 2 1,
                      WaitForTxnComplete 0 Ctx_Done, AmWaitForDone 12288]"
    and n2: "numTxnsSent (tciTab st'' 0) = 1"
    by (simp add: amRequestCommon_def amRequestCommon_done_def amRequestCommon_mcm_def
        amRequestCommon_send_def amRequestCommon_finish_def ex_run_defs)
  from amRequestCommon_transmission [OF r2]
  obtain pAmDone' t' st1' myReq' st2' st3' st4' req1' tx' pre' post'
    where "amRequestCommon_done ex_cfg True = Ret pAmDone'
    \<and> (pAmDone' = None) = (\<not> True)
    \<and> req1' = (if True then ?req\<lparr> b_pAmDone := pAmDone' \<rparr> else ?req)
    \<and> with_tcip 1 ex_cfg (Some 0) ?st = Ret (t', st1')
    \<and> bounce_if ex_cfg (mrGetDesc ex_cfg 12320 2 \<noteq> None)
         (mrGetDesc ex_cfg (allocBounceBuf ex_cfg 2) 2 \<noteq> None) True 12320 2 st1'
         = Ret (myReq', st2')
    \<and> amRequestCommon_mcm 1 ex_cfg 1 req1' t' st2' = Ret st3'
    \<and> amRequestCommon_send ex_cfg 1 req1' 2 pAmDone' t' st3' = Ret st4'
    \<and> st'' = amRequestCommon_finish ex_cfg 12320 myReq' pAmDone' (Some 0) t' st4'
    \<and> tx' = (if \<not> True \<and> 2 \<le> inject_size ex_cfg
             then [Fi_inject t' req1' 2 1]
             else [Fi_send t' req1' 2 1, WaitForTxnComplete t' Ctx_Done])
    \<and> trace st4' = trace st3' @ tx'
    \<and> numTxnsSent (tciTab st4' t') = numTxnsSent (tciTab st3' t') + 1
    \<and> (if \<not> True \<and> 2 \<le> inject_size ex_cfg
        then numTxnsOut (tciTab st4' t') = numTxnsOut (tciTab st3' t')
        else (\<exists>st_w. waitForTxnComplete ex_cfg t' Ctx_Done st_w = Ret st4'
                \<and> trace st_w = trace st3' @ [Fi_send t' req1' 2 1]
                \<and> numTxnsOut (tciTab st_w t') = numTxnsOut (tciTab st3' t') + 1
                \<and> numTxnsSent (tciTab st_w t') = numTxnsSent (tciTab st3' t') + 1))
    \<and> trace st'' = trace ?st @ pre' @ tx' @ post'
    \<and> (\<forall>e \<in> set pre'. \<not> is_am_send e)
    \<and> (\<forall>e \<in> set post'. \<not> is_fabric_op e)"
    by (elim exE) (rule that)
  note tx2 = this [THEN conjunct2, THEN conjunct2, THEN conjunct2, THEN conjunct2, THEN conjunct2, THEN conjunct2, THEN conjunct2, THEN conjunct2, THEN conjunct1] and t42 = this [THEN conjunct2, THEN conjunct2, THEN conjunct2, THEN conjunct2, THEN conjunct2, THEN conjunct2, THEN conjunct2, THEN conjunct2, THEN conjunct2, THEN conjunct1] and cnt2 = this [THEN conjunct2, THEN conjunct2, THEN conjunct2, THEN conjunct2, THEN conjunct2, THEN conjunct2, THEN conjunct2, THEN conjunct2, THEN conjunct2, THEN conjunct2, THEN conjunct2, THEN conjunct1] and whole2 = this [THEN conjunct2, THEN conjunct2, THEN conjunct2, THEN conjunct2, THEN conjunct2, THEN conjunct2, THEN conjunct2, THEN conjunct2, THEN conjunct2, THEN conjunct2, THEN conjunct2, THEN conjunct2, THEN conjunct1]
  from tx2 have tx2': "tx' = [Fi_send t' req1' 2 1, WaitForTxnComplete t' Ctx_Done]" by simp
  from cnt2 have "\<exists>st_w. waitForTxnComplete ex_cfg t' Ctx_Done st_w = Ret st4'
                \<and> trace st_w = trace st3' @ [Fi_send t' req1' 2 1]
                \<and> numTxnsOut (tciTab st_w t') = numTxnsOut (tciTab st3' t') + 1
                \<and> numTxnsSent (tciTab st_w t') = numTxnsSent (tciTab st3' t') + 1"
    by (simp only: simp_thms if_False)
  then obtain st_w where
    sw: "waitForTxnComplete ex_cfg t' Ctx_Done st_w = Ret st4'"
    "numTxnsSent (tciTab st_w t') = numTxnsSent (tciTab st3' t') + 1"
    "numTxnsOut (tciTab st_w t') = numTxnsOut (tciTab st3' t') + 1"
    by (elim exE conjE) (rule that)
  have b: "\<exists>t (st3 :: comm_state) (st4 :: comm_state) st_w req1 pre post.
            trace st4 = trace st3 @ [Fi_send t req1 2 1, WaitForTxnComplete t Ctx_Done]
          \<and> waitForTxnComplete ex_cfg t Ctx_Done st_w = Ret st4
          \<and> numTxnsSent (tciTab st_w t) = numTxnsSent (tciTab st3 t) + 1
          \<and> numTxnsOut (tciTab st_w t) = numTxnsOut (tciTab st3 t) + 1
          \<and> trace st'' = trace ?st @ pre
                           @ [Fi_send t req1 2 1, WaitForTxnComplete t Ctx_Done] @ post"
    using t42 sw whole2 unfolding tx2'
    by (intro exI [of _ t'] exI [of _ st3'] exI [of _ st4'] exI [of _ st_w] exI [of _ req1']
        exI [of _ pre'] exI [of _ post'] conjI)
  from r tr n a have A: "\<exists>st'. amRequestCommon 1 ex_cfg 1 ?req 12320 2 False True (Some 0) ?st = Ret st'
      \<and> trace st' = [Fi_inject 0 ?req 2 1]
      \<and> numTxnsSent (tciTab st' 0) = 1 \<and> numTxnsOut (tciTab st' 0) = 0
      \<and> (\<exists>t (st3 :: comm_state) (st4 :: comm_state) req1 pre post.
            trace st4 = trace st3 @ [Fi_inject t req1 2 1]
          \<and> numTxnsSent (tciTab st4 t) = numTxnsSent (tciTab st3 t) + 1
          \<and> numTxnsOut (tciTab st4 t) = numTxnsOut (tciTab st3 t)
          \<and> trace st' = trace ?st @ pre @ [Fi_inject t req1 2 1] @ post)"
    by (intro exI [of _ st'] conjI)
  from r2 tr2 n2 b have B: "\<exists>st'. amRequestCommon 1 ex_cfg 1 ?req 12320 2 True True (Some 0) ?st = Ret st'
      \<and> trace st' = [Fi_send 0 \<lparr> b_op = am_opNop, b_node = 0, b_pAmDone = Some 12288,
                                 req_payload = Payload_none \<rparr> 2 1,
                      WaitForTxnComplete 0 Ctx_Done, AmWaitForDone 12288]
      \<and> numTxnsSent (tciTab st' 0) = 1
      \<and> (\<exists>t (st3 :: comm_state) (st4 :: comm_state) st_w req1 pre post.
            trace st4 = trace st3 @ [Fi_send t req1 2 1, WaitForTxnComplete t Ctx_Done]
          \<and> waitForTxnComplete ex_cfg t Ctx_Done st_w = Ret st4
          \<and> numTxnsSent (tciTab st_w t) = numTxnsSent (tciTab st3 t) + 1
          \<and> numTxnsOut (tciTab st_w t) = numTxnsOut (tciTab st3 t) + 1
          \<and> trace st' = trace ?st @ pre
                           @ [Fi_send t req1 2 1, WaitForTxnComplete t Ctx_Done] @ post)"
    by (intro exI [of _ st''] conjI)
  from A B show ?thesis by (rule conjI)
qed

section \<open>The dummy GETs that force PUTs into visibility\<close>

lemma checkTxCmpls_keeps:
  assumes "checkTxCmpls cfg t st = Ret st'"
  shows "trace st' = trace st" and "prvData st' = prvData st"
    and "txCQ (tciTab st' u) = txCQ (tciTab st u)"
  using assms by (auto simp: checkTxCmpls_def Let_def upd_tci_def split: if_splits)

lemma mcmReleaseOneNode_events:
  assumes "mcmReleaseOneNode fuel cfg node t st = Ret st'"
  shows "trace st' = trace st @ dummy_get cfg t (if txCQ (tciTab st t) then Ctx_Done else Ctx_NULL) node"
    and "prvData st' = prvData st"
    and "txCQ (tciTab st' t) = txCQ (tciTab st t)"
proof -
  let ?ctx = "if txCQ (tciTab st t) then Ctx_Done else Ctx_NULL"
  from assms obtain st1 where
    g: "ofi_get_ll fuel cfg (orderDummy cfg) node (orderDummyMap cfg node) 1 ?ctx (Some t) st = Ret st1"
    and w: "waitForTxnComplete cfg t ?ctx st1 = Ret st'"
    by (auto simp: mcmReleaseOneNode_def obind_def split: if_splits outcome.splits)
  from g obtain mrKey mrRaddr where
    k: "mrGetKey cfg node (orderDummyMap cfg node) 1 = Some (mrKey, mrRaddr)"
    and st1: "st1 = incr_numTxnsSent t (incr_numTxnsOut t
                 (emit [Fi_read t (orderDummy cfg) 1 node mrRaddr mrKey ?ctx] st))"
    by (auto simp: ofi_get_ll_def with_tcip_def release_tcip_def obind_def
        split: option.splits)
  let ?st2 = "emit [WaitForTxnComplete t ?ctx] st1"
  from w have c: "checkTxCmpls cfg t ?st2 = Ret st'" by (simp add: waitForTxnComplete_def)
  have "trace st' = trace ?st2" by (rule checkTxCmpls_keeps(1) [OF c])
  then show "trace st' = trace st @ dummy_get cfg t ?ctx node"
    unfolding st1 using k by (simp add: dummy_get_def Let_def)
  have "prvData st' = prvData ?st2" by (rule checkTxCmpls_keeps(2) [OF c])
  then show "prvData st' = prvData st"
    unfolding st1 by (simp add: incr_numTxnsSent_def incr_numTxnsOut_def upd_tci_def emit_def)
  have "txCQ (tciTab st' t) = txCQ (tciTab ?st2 t)" by (rule checkTxCmpls_keeps(3) [OF c])
  then show "txCQ (tciTab st' t) = txCQ (tciTab st t)"
    unfolding st1 by (simp add: incr_numTxnsSent_def incr_numTxnsOut_def upd_tci_def emit_def)
qed

lemma wait_cq_room_yields:
  "wait_cq_room fuel cfg t st = Ret st' \<Longrightarrow>
   txCQ (tciTab st' t) = txCQ (tciTab st t)
   \<and> (\<exists>ys. trace st' = trace st @ ys \<and> filter (\<lambda>e. \<not> is_yield e) ys = [])"
proof (induction fuel arbitrary: st)
  case 0
  then show ?case by (auto split: if_splits)
next
  case (Suc f)
  show ?case
  proof (cases "txCQ (tciTab st t) \<and> txCQLen cfg \<le> unat (numTxnsOut (tciTab st t))")
    case False
    with Suc.prems show ?thesis by auto
  next
    case True
    with Suc.prems obtain st1 where
      c: "checkTxCmpls cfg t (emit [Sched_yield] st) = Ret st1"
      and r: "wait_cq_room f cfg t st1 = Ret st'"
      by (auto simp: obind_def split: outcome.splits)
    from checkTxCmpls_keeps [OF c]
    have t1: "trace st1 = trace st @ [Sched_yield]" and q1: "txCQ (tciTab st1 t) = txCQ (tciTab st t)"
      by (simp_all add: emit_def)
    from Suc.IH [OF r] obtain ys where
      "txCQ (tciTab st' t) = txCQ (tciTab st1 t)" "trace st' = trace st1 @ ys"
      "filter (\<lambda>e. \<not> is_yield e) ys = []"
      by blast
    with t1 q1 show ?thesis
      by (intro conjI exI [of _ "Sched_yield # ys"]) (simp_all add: is_yield_def)
  qed
qed

lemma mcm_release_events:
  assumes "mcm_release fuel cfg t node b st = Ret (b', st')"
  shows "b' = bitmapClear b node" and "txCQ (tciTab st' t) = txCQ (tciTab st t)"
    and "\<exists>es. trace st' = trace st @ es
           \<and> filter (\<lambda>e. \<not> is_yield e) es
               = dummy_get cfg t (if txCQ (tciTab st t) then Ctx_Done else Ctx_NULL) node"
proof -
  from assms obtain st1 st2 where
    c: "checkTxCmpls cfg t st = Ret st1" and w: "wait_cq_room fuel cfg t st1 = Ret st2"
    and r: "mcmReleaseOneNode fuel cfg node t st2 = Ret st'" and b': "b' = bitmapClear b node"
    by (auto simp: mcm_release_def obind_def split: outcome.splits)
  show "b' = bitmapClear b node" by (rule b')
  from wait_cq_room_yields [OF w] obtain ys where
    q2: "txCQ (tciTab st2 t) = txCQ (tciTab st1 t)" and t2: "trace st2 = trace st1 @ ys"
    and ys: "filter (\<lambda>e. \<not> is_yield e) ys = []"
    by blast
  note q1 = checkTxCmpls_keeps(3) [OF c, of t] and t1 = checkTxCmpls_keeps(1) [OF c]
  from mcmReleaseOneNode_events(3) [OF r] q2 q1
  show q: "txCQ (tciTab st' t) = txCQ (tciTab st t)" by simp
  let ?d = "dummy_get cfg t (if txCQ (tciTab st t) then Ctx_Done else Ctx_NULL) node"
  from mcmReleaseOneNode_events(1) [OF r] q2 q1 t2 t1
  have "trace st' = trace st @ (ys @ ?d)" by simp
  moreover have "filter (\<lambda>e. \<not> is_yield e) (ys @ ?d) = ?d"
    using ys by (simp add: dummy_get_def Let_def is_yield_def)
  ultimately show "\<exists>es. trace st' = trace st @ es \<and> filter (\<lambda>e. \<not> is_yield e) es = ?d"
    by blast
qed

lemma mcm_bits_events:
  assumes "mcm_bits fuel cfg t ei bis b st = Ret (b', st')"
    and "ei < length (bm_map b)" and "\<forall>bi \<in> set bis. bi < 64" and "distinct bis"
  shows "txCQ (tciTab st' t) = txCQ (tciTab st t)
     \<and> (\<exists>es. trace st' = trace st @ es
           \<and> filter (\<lambda>e. \<not> is_yield e) es
               = concat (map (dummy_get cfg t (if txCQ (tciTab st t) then Ctx_Done else Ctx_NULL))
                           (map (\<lambda>bi. ei * bitmapElemWidth + bi)
                              (filter (\<lambda>bi. bit (bm_map b ! ei) bi) bis))))"
  using assms
proof (induction bis arbitrary: b st)
  case Nil
  then show ?case by simp
next
  case (Cons bi bis)
  from Cons.prems have lt: "bi < 64" and rest: "\<forall>bi \<in> set bis. bi < 64"
    and nin: "bi \<notin> set bis" and dist: "distinct bis"
    by simp_all
  show ?case
  proof (cases "bit (bm_map b ! ei) bi")
    case False
    with Cons.prems lt have "mcm_bits fuel cfg t ei bis b st = Ret (b', st')"
      by (simp add: bit_elem_test)
    from Cons.IH [OF this Cons.prems(2) rest dist] False show ?thesis by simp
  next
    case True
    let ?b1 = "b\<lparr> bm_map := (bm_map b)[ei := (bm_map b ! ei) AND NOT (bitmapElemBit bi)] \<rparr>"
    let ?ctx = "if txCQ (tciTab st t) then Ctx_Done else Ctx_NULL"
    from True Cons.prems lt obtain b1 st1 where
      rel: "mcm_release fuel cfg t (ei * bitmapElemWidth + bi) b st = Ret (b1, st1)"
      and r: "mcm_bits fuel cfg t ei bis b1 st1 = Ret (b', st')"
      by (auto simp: bit_elem_test obind_def split: outcome.splits)
    from mcm_release_events(1) [OF rel] lt have b1: "b1 = ?b1"
      by (simp add: bitmapClear_in_elem)
    note q1 = mcm_release_events(2) [OF rel]
    from mcm_release_events(3) [OF rel] obtain es1 where
      t1: "trace st1 = trace st @ es1"
      and f1: "filter (\<lambda>e. \<not> is_yield e) es1 = dummy_get cfg t ?ctx (ei * bitmapElemWidth + bi)"
      by blast
    have len: "ei < length (bm_map ?b1)" using Cons.prems(2) by simp
    have same: "filter (\<lambda>bj. bit (bm_map ?b1 ! ei) bj) bis = filter (\<lambda>bj. bit (bm_map b ! ei) bj) bis"
    proof (rule filter_cong [OF refl])
      fix bj assume "bj \<in> set bis"
      with nin rest have "bj \<noteq> bi" "bj < 64" "bi < 64" using lt by auto
      then show "bit (bm_map ?b1 ! ei) bj = bit (bm_map b ! ei) bj"
        using Cons.prems(2) by (simp add: bit_clear_elem)
    qed
    from Cons.IH [OF r [unfolded b1] len rest dist] obtain es2 where
      q2: "txCQ (tciTab st' t) = txCQ (tciTab st1 t)"
      and t2: "trace st' = trace st1 @ es2"
      and f2: "filter (\<lambda>e. \<not> is_yield e) es2
               = concat (map (dummy_get cfg t (if txCQ (tciTab st1 t) then Ctx_Done else Ctx_NULL))
                           (map (\<lambda>bi. ei * bitmapElemWidth + bi)
                              (filter (\<lambda>bj. bit (bm_map ?b1 ! ei) bj) bis)))"
      by blast
    have f2': "filter (\<lambda>e. \<not> is_yield e) es2
               = concat (map (dummy_get cfg t ?ctx)
                           (map (\<lambda>bi. ei * bitmapElemWidth + bi)
                              (filter (\<lambda>bj. bit (bm_map b ! ei) bj) bis)))"
      using f2 unfolding same q1 .
    have "trace st' = trace st @ (es1 @ es2)" using t1 t2 by simp
    moreover have "filter (\<lambda>e. \<not> is_yield e) (es1 @ es2)
               = concat (map (dummy_get cfg t ?ctx)
                           (map (\<lambda>bi. ei * bitmapElemWidth + bi)
                              (filter (\<lambda>bi. bit (bm_map b ! ei) bi) (bi # bis))))"
      using True by (simp add: f1 f2')
    moreover have "txCQ (tciTab st' t) = txCQ (tciTab st t)" using q1 q2 by simp
    ultimately show ?thesis by blast
  qed
qed


lemma mcm_elems_events:
  assumes "mcm_elems fuel cfg t eis b st = Ret (b', st')"
    and "\<forall>ei \<in> set eis. ei < length (bm_map b)" and "distinct eis"
  shows "txCQ (tciTab st' t) = txCQ (tciTab st t)
     \<and> (\<exists>es. trace st' = trace st @ es
           \<and> filter (\<lambda>e. \<not> is_yield e) es
               = concat (map (dummy_get cfg t (if txCQ (tciTab st t) then Ctx_Done else Ctx_NULL))
                   (concat (map (\<lambda>ei. map (\<lambda>bi. ei * bitmapElemWidth + bi)
                                   (filter (\<lambda>bi. bit (bm_map b ! ei) bi)
                                      [0 ..< min bitmapElemWidth (bm_len b - ei * bitmapElemWidth)]))
                              eis))))"
  using assms
proof (induction eis arbitrary: b st)
  case Nil
  then show ?case by simp
next
  case (Cons ei eis)
  let ?bis = "\<lambda>b ei. [0 ..< min bitmapElemWidth (bm_len b - ei * bitmapElemWidth)]"
  let ?nodes = "\<lambda>b ei. map (\<lambda>bi. ei * bitmapElemWidth + bi)
                          (filter (\<lambda>bi. bit (bm_map b ! ei) bi) (?bis b ei))"
  let ?ctx = "\<lambda>st. if txCQ (tciTab st t) then Ctx_Done else Ctx_NULL"
  from Cons.prems obtain b1 st1 where
    step: "(if bm_map b ! ei \<noteq> 0 then mcm_bits fuel cfg t ei (?bis b ei) b st else Ret (b, st))
             = Ret (b1, st1)"
    and r: "mcm_elems fuel cfg t eis b1 st1 = Ret (b', st')"
    by (auto simp: obind_def split: outcome.splits)
  from Cons.prems have ei: "ei < length (bm_map b)" and nin: "ei \<notin> set eis"
    and dist: "distinct eis"
    by simp_all
  have s1: "length (bm_map b1) = length (bm_map b) \<and> bm_len b1 = bm_len b
     \<and> (\<forall>j. j \<noteq> ei \<longrightarrow> bm_map b1 ! j = bm_map b ! j)"
    and e1: "txCQ (tciTab st1 t) = txCQ (tciTab st t)
     \<and> (\<exists>es. trace st1 = trace st @ es
           \<and> filter (\<lambda>e. \<not> is_yield e) es
               = concat (map (dummy_get cfg t (?ctx st)) (?nodes b ei)))"
  proof -
    show "length (bm_map b1) = length (bm_map b) \<and> bm_len b1 = bm_len b
     \<and> (\<forall>j. j \<noteq> ei \<longrightarrow> bm_map b1 ! j = bm_map b ! j)"
    proof (cases "bm_map b ! ei = 0")
      case True
      with step show ?thesis by simp
    next
      case False
      with step have "mcm_bits fuel cfg t ei (?bis b ei) b st = Ret (b1, st1)" by simp
      from mcm_bits_clears [OF this ei] show ?thesis by (auto simp: bitmapElemWidth_def)
    qed
    show "txCQ (tciTab st1 t) = txCQ (tciTab st t)
     \<and> (\<exists>es. trace st1 = trace st @ es
           \<and> filter (\<lambda>e. \<not> is_yield e) es
               = concat (map (dummy_get cfg t (?ctx st)) (?nodes b ei)))"
    proof (cases "bm_map b ! ei = 0")
      case True
      with step show ?thesis by simp
    next
      case False
      with step have "mcm_bits fuel cfg t ei (?bis b ei) b st = Ret (b1, st1)" by simp
      then show ?thesis
        by (rule mcm_bits_events) (use ei in \<open>auto simp: bitmapElemWidth_def\<close>)
    qed
  qed
  from s1 Cons.prems(2) have len1: "\<forall>ej \<in> set eis. ej < length (bm_map b1)" by simp
  have same: "map (?nodes b1) eis = map (?nodes b) eis"
  proof (rule map_cong [OF refl])
    fix ej assume "ej \<in> set eis"
    with nin have "ej \<noteq> ei" by auto
    with s1 show "?nodes b1 ej = ?nodes b ej" by simp
  qed
  from e1 obtain es1 where
    q1: "txCQ (tciTab st1 t) = txCQ (tciTab st t)" and t1: "trace st1 = trace st @ es1"
    and f1: "filter (\<lambda>e. \<not> is_yield e) es1
               = concat (map (dummy_get cfg t (?ctx st)) (?nodes b ei))"
    by blast
  from Cons.IH [OF r len1 dist] obtain es2 where
    q2: "txCQ (tciTab st' t) = txCQ (tciTab st1 t)" and t2: "trace st' = trace st1 @ es2"
    and f2: "filter (\<lambda>e. \<not> is_yield e) es2
               = concat (map (dummy_get cfg t (?ctx st1)) (concat (map (?nodes b1) eis)))"
    by blast
  have f2': "filter (\<lambda>e. \<not> is_yield e) es2
               = concat (map (dummy_get cfg t (?ctx st)) (concat (map (?nodes b) eis)))"
    using f2 unfolding same q1 .
  have "trace st' = trace st @ (es1 @ es2)" using t1 t2 by simp
  moreover have "filter (\<lambda>e. \<not> is_yield e) (es1 @ es2)
       = concat (map (dummy_get cfg t (?ctx st)) (concat (map (?nodes b) (ei # eis))))"
    by (simp only: filter_append f1 f2' list.map concat.simps map_append concat_append)
  moreover have "txCQ (tciTab st' t) = txCQ (tciTab st t)" using q1 q2 by simp
  ultimately show ?case by blast
qed

lemma bitmapNumElems_0: "bitmapNumElems 0 = 1"
  by (simp add: bitmapNumElems_def bitmapElemWidth_def signed_divide_int_def)

lemma elems_cover:
  assumes "k < bitmapNumElems n"
  shows "k * 64 \<le> n"
proof (cases "n = 0")
  case True
  with assms show ?thesis by (simp add: bitmapNumElems_0)
next
  case False
  with assms have "k \<le> (n - 1) div 64" by (simp add: bitmapNumElems_pos)
  then have "k * 64 \<le> (n - 1) div 64 * 64" by simp
  also have "\<dots> \<le> n - 1" by simp
  finally show ?thesis by simp
qed

lemma elems_reach: "n \<le> bitmapNumElems n * 64"
proof (cases "n = 0")
  case True
  then show ?thesis by simp
next
  case False
  have "n - 1 < 64 + 64 * ((n - 1) div 64)"
    by (rule dividend_less_times_div) simp
  with False show ?thesis by (simp add: bitmapNumElems_pos)
qed

text \<open>
  The nodes that \<^verbatim>\<open>BITMAP_FOREACH_SET\<close> visits in a bitmap that stays as it is are the
  marked nodes, in increasing order.
\<close>

lemma foreach_set_prefix:
  assumes "k \<le> bitmapNumElems (bm_len b)"
  shows "concat (map (\<lambda>ei. map (\<lambda>bi. ei * bitmapElemWidth + bi)
                      (filter (\<lambda>bi. bit (bm_map b ! ei) bi)
                         [0 ..< min bitmapElemWidth (bm_len b - ei * bitmapElemWidth)]))
                 [0 ..< k])
         = filter (bitmapTest b) [0 ..< min (bm_len b) (k * 64)]"
  using assms
proof (induction k)
  case 0
  show ?case by simp
next
  case (Suc k)
  let ?w = "min 64 (bm_len b - k * 64)"
  from Suc.prems have "k < bitmapNumElems (bm_len b)" by simp
  from elems_cover [OF this] have le: "k * 64 \<le> bm_len b" .
  then have m1: "min (bm_len b) (k * 64) = k * 64" by simp
  from le have m2: "min (bm_len b) (Suc k * 64) = k * 64 + ?w"
    by (simp add: min_def) arith
  have seg: "[k * 64 ..< k * 64 + ?w] = map (\<lambda>bi. k * 64 + bi) [0 ..< ?w]"
    using map_add_upt [of "k * 64" ?w] by (simp add: add.commute)
  have part: "filter (bitmapTest b) [k * 64 ..< k * 64 + ?w]
                = map (\<lambda>bi. k * 64 + bi) (filter (\<lambda>bi. bit (bm_map b ! k) bi) [0 ..< ?w])"
    unfolding seg filter_map
  proof (rule arg_cong [where f = "map (\<lambda>bi. k * 64 + bi)"], rule filter_cong [OF refl])
    fix bi assume "bi \<in> set [0 ..< ?w]"
    then have "bi < 64" by simp
    then show "(bitmapTest b \<circ> (\<lambda>bi. k * 64 + bi)) bi = bit (bm_map b ! k) bi"
      by (simp add: bitmapTest_bit)
  qed
  let ?F = "\<lambda>ei. map (\<lambda>bi. ei * bitmapElemWidth + bi)
                      (filter (\<lambda>bi. bit (bm_map b ! ei) bi)
                         [0 ..< min bitmapElemWidth (bm_len b - ei * bitmapElemWidth)])"
  have split: "filter (bitmapTest b) [0 ..< k * 64 + ?w]
          = filter (bitmapTest b) [0 ..< k * 64] @ filter (bitmapTest b) [k * 64 ..< k * 64 + ?w]"
    by (simp only: upt_add_eq_append [OF le0] filter_append)
  from Suc.IH Suc.prems have ih: "concat (map ?F [0 ..< k]) = filter (bitmapTest b) [0 ..< k * 64]"
    by (simp add: m1)
  have fk: "?F k = filter (bitmapTest b) [k * 64 ..< k * 64 + ?w]"
    unfolding part by (simp add: bitmapElemWidth_def)
  have "concat (map ?F [0 ..< Suc k]) = concat (map ?F [0 ..< k]) @ ?F k" by simp
  also have "\<dots> = filter (bitmapTest b) [0 ..< k * 64 + ?w]"
    by (simp only: ih fk split)
  finally show ?case by (simp only: m2)
qed

lemma foreach_set_marked:
  "concat (map (\<lambda>ei. map (\<lambda>bi. ei * bitmapElemWidth + bi)
                      (filter (\<lambda>bi. bit (bm_map b ! ei) bi)
                         [0 ..< min bitmapElemWidth (bm_len b - ei * bitmapElemWidth)]))
                 [0 ..< bitmapNumElems (bm_len b)])
     = marked_nodes b"
  using foreach_set_prefix [OF order_refl, of b] elems_reach [of "bm_len b"]
  by (simp add: marked_nodes_def min_def)


lemma bitmapClear_unmarked: "\<not> bitmapTest b i \<Longrightarrow> bitmapClear b i = b"
proof -
  assume n: "\<not> bitmapTest b i"
  have "(bm_map b ! bitmapElemIdx i) AND NOT (bitmapElemBit i) = bm_map b ! bitmapElemIdx i"
  proof (rule bit_eqI)
    fix k
    from n show "bit ((bm_map b ! bitmapElemIdx i) AND NOT (bitmapElemBit i)) k
                   = bit (bm_map b ! bitmapElemIdx i) k"
      by (auto simp: bit_clear_elem bitmapTest_bit bitmapElemIdx_def bitmapElemWidth_def)
  qed
  then show ?thesis by (simp add: bitmapClear_def)
qed

lemma bitmapTest_bitmapClear_iff:
  assumes "bitmapElemIdx i < length (bm_map b)"
  shows "bitmapTest (bitmapClear b i) j = (bitmapTest b j \<and> j \<noteq> i)"
proof (cases "i div 64 = j div 64")
  case False
  then have "j \<noteq> i" by auto
  with False show ?thesis
    by (simp add: bitmapTest_bit bitmapClear_def bitmapElemIdx_def bitmapElemWidth_def)
next
  case True
  then have "(j mod 64 \<noteq> i mod 64) = (j \<noteq> i)"
    by (metis div_mult_mod_eq)
  with True assms show ?thesis
    by (simp add: bitmapTest_bit bitmapClear_def bitmapElemIdx_def bitmapElemWidth_def
        bit_clear_elem)
qed

lemma marked_nodes_bitmapClear:
  assumes "bitmapElemIdx i < length (bm_map b)"
  shows "marked_nodes (bitmapClear b i) = filter (\<lambda>j. j \<noteq> i) (marked_nodes b)"
proof -
  have "bm_len (bitmapClear b i) = bm_len b" by (simp add: bitmapClear_def)
  moreover have "filter (bitmapTest (bitmapClear b i)) xs
                   = filter (\<lambda>j. bitmapTest b j \<and> j \<noteq> i) xs" for xs
    by (rule filter_cong [OF refl]) (simp add: bitmapTest_bitmapClear_iff [OF assms])
  ultimately show ?thesis by (simp add: marked_nodes_def)
qed

lemma marked_nodes_member: "(i \<in> set (marked_nodes b)) = (i < bm_len b \<and> bitmapTest b i)"
  by (auto simp: marked_nodes_def)

text \<open>
  \<^verbatim>\<open>waitForPutsVisOneNode\<close> on a bound context in message-order mode: the node is no
  longer marked, the other marks stay, and if the node was marked its dummy GET has been
  issued and waited for; nothing else is added to the trace.
\<close>

lemma waitForPutsVisOneNode_events:
  assumes "waitForPutsVisOneNode fuel cfg node t st = Ret st'"
    and "\<not> haveDeliveryComplete cfg" and "bound (tciTab st t)"
    and "prvData st = Some pd" and "putBitmap pd = Some b"
    and "length (bm_map b) = bitmapNumElems (bm_len b)" and "node < bm_len b"
  shows "\<exists>b'. prvData st' = Some (pd\<lparr> putBitmap := Some b' \<rparr>) \<and> bm_len b' = bm_len b
     \<and> marked_nodes b' = filter (\<lambda>i. i \<noteq> node) (marked_nodes b)
     \<and> trace st' = trace st
          @ (if node \<in> set (marked_nodes b)
             then dummy_get cfg t (if txCQ (tciTab st t) then Ctx_Done else Ctx_NULL) node
             else [])"
proof -
  from assms(6,7) have idx: "bitmapElemIdx node < length (bm_map b)"
    by (simp add: bitmapElemIdx_in_range)
  note mk = marked_nodes_bitmapClear [OF idx]
  have len: "bm_len (bitmapClear b node) = bm_len b" by (simp add: bitmapClear_def)
  show ?thesis
  proof (cases "bitmapTest b node")
    case False
    with assms have "st' = st" by (simp add: waitForPutsVisOneNode_def)
    moreover from False have "bitmapClear b node = b" by (rule bitmapClear_unmarked)
    ultimately show ?thesis
      using False assms(4,5) mk len
      by (intro exI [of _ "bitmapClear b node"]) (simp add: marked_nodes_member)
  next
    case True
    let ?st1 = "st\<lparr> prvData := Some (pd\<lparr> putBitmap := Some (bitmapClear b node) \<rparr>) \<rparr>"
    from True assms have r: "mcmReleaseOneNode fuel cfg node t ?st1 = Ret st'"
      by (simp add: waitForPutsVisOneNode_def)
    from mcmReleaseOneNode_events(1,2) [OF r] True assms(7) mk len show ?thesis
      by (intro exI [of _ "bitmapClear b node"]) (simp add: marked_nodes_member)
  qed
qed

text \<open>
  \<^verbatim>\<open>waitForPutsVisAllNodes\<close> on the thread's own bound context in message-order mode: no
  node is marked any more, and, yields aside, the trace has gained the dummy GETs of the
  nodes that were marked, in increasing order, each with its wait.
\<close>

lemma waitForPutsVisAllNodes_events:
  assumes "waitForPutsVisAllNodes fuel cfg (Some t) False st = Ret st'"
    and "1 < chpl_numNodes cfg" and "\<not> haveDeliveryComplete cfg"
    and "ttcip st = Some t" and "bound (tciTab st t)"
    and "prvData st = Some pd" and "putBitmap pd = Some b"
    and "length (bm_map b) = bitmapNumElems (bm_len b)"
  shows "\<exists>b' es. prvData st' = Some (pd\<lparr> putBitmap := Some b' \<rparr>) \<and> bm_len b' = bm_len b
     \<and> marked_nodes b' = []
     \<and> trace st' = trace st @ es
     \<and> filter (\<lambda>e. \<not> is_yield e) es
         = concat (map (dummy_get cfg t (if txCQ (tciTab st t) then Ctx_Done else Ctx_NULL))
                     (marked_nodes b))"
proof -
  from assms(1-3,5-7) obtain b' st2 where
    r: "mcmReleaseAllNodes fuel cfg b None st = Ret (b', st2)"
    and st': "st' = st2\<lparr> prvData := Some (pd\<lparr> putBitmap := Some b' \<rparr>) \<rparr>"
    by (auto simp: waitForPutsVisAllNodes_def with_tcip_def release_tcip_def obind_def
        split: outcome.splits)
  have a: "with_tcip fuel cfg None st = Ret (t, st)"
    using assms(4,5) by (simp add: with_tcip_def tciAlloc_def tciAllocCommon_def)
  from r obtain st3 where
    e: "mcm_elems fuel cfg t [0 ..< bitmapNumElems (bm_len b)] b st = Ret (b', st3)"
    and st2: "st2 = release_tcip None t st3"
    by (auto simp: mcmReleaseAllNodes_def a obind_def split: outcome.splits)
  have rng: "\<forall>ei \<in> set [0 ..< bitmapNumElems (bm_len b)]. ei < length (bm_map b)"
    using assms(8) by simp
  from mcm_elems_clears [OF e rng] have len: "bm_len b' = bm_len b" by simp
  have "\<forall>i < bm_len b. \<not> bitmapTest b' i"
    using mcmReleaseAllNodes_clears [OF r assms(8)] by blast
  with len have none: "marked_nodes b' = []" by (simp add: marked_nodes_def)
  from mcm_elems_events [OF e rng distinct_upt] obtain es where
    t3: "trace st3 = trace st @ es"
    and f: "filter (\<lambda>e. \<not> is_yield e) es
         = concat (map (dummy_get cfg t (if txCQ (tciTab st t) then Ctx_Done else Ctx_NULL))
                     (marked_nodes b))"
    unfolding foreach_set_marked by blast
  have "trace st' = trace st @ es" unfolding st' st2 using t3 by simp
  with st' len none f show ?thesis
    by (intro exI [of _ b'] exI [of _ es]) simp
qed

lemma waitForPutsVis_nothing:
  assumes "haveDeliveryComplete cfg \<or> \<not> bound (tciTab st t)
           \<or> (\<exists>pd. prvData st = Some pd \<and> putBitmap pd = None)"
  shows "waitForPutsVisOneNode fuel cfg node t st = Ret st' \<Longrightarrow> st' = st"
    and "waitForPutsVisAllNodes fuel cfg (Some t) False st = Ret st' \<Longrightarrow> st' = st"
  using assms
  by (auto simp: waitForPutsVisOneNode_def waitForPutsVisAllNodes_def with_tcip_def
      release_tcip_def obind_def split: if_splits)


section \<open>Forcing visibility before an active message\<close>

text \<open>
  Claim C2.  Between the copy of the request and its transmission,
  \<^verbatim>\<open>amRequestCommon\<close> does this and nothing else: for \<^verbatim>\<open>am_opExecOn\<close>,
  \<^verbatim>\<open>am_opExecOnLrg\<close> and an \<^verbatim>\<open>am_opAMO\<close> whose operation is not \<^verbatim>\<open>FI_ATOMIC_READ\<close> it
  calls \<^verbatim>\<open>waitForPutsVisAllNodes\<close> on its context; for \<^verbatim>\<open>am_opGet\<close> and \<^verbatim>\<open>am_opPut\<close> it
  calls \<^verbatim>\<open>waitForPutsVisOneNode\<close> for the target node; for \<^verbatim>\<open>am_opFree\<close>,
  \<^verbatim>\<open>am_opNop\<close>, \<^verbatim>\<open>am_opShutdown\<close> and an atomic read the state is left as it is.

  What the two calls do shows in the task's bitmap of nodes with PUTs not yet visible and
  in the trace.  With delivery-complete, on a context that is not bound, or for a task
  without a bitmap, nothing happens at all.  Otherwise, in message-order mode on a bound
  context, with the bitmap \<open>b\<close>: for \<^verbatim>\<open>am_opGet\<close> and \<^verbatim>\<open>am_opPut\<close> the target node is no
  longer marked afterwards and every other mark is as before, and the trace has gained
  the dummy GET from the target node and the wait for it if the node was marked, and
  nothing if it was not.  For the operations of the first kind, on the thread's own
  context, no node is marked afterwards, and the trace has gained, yields aside, the
  dummy GET and its wait for each node that was marked, in increasing order, and nothing
  else.
\<close>

theorem amRequestCommon_put_visibility:
  assumes "amRequestCommon fuel cfg node req reqAddr reqSize blocking y tcip st = Ret st'"
  shows "\<exists>pAmDone req1 t myReq st1 st2 st3 st4.
      amRequestCommon_done cfg blocking = Ret pAmDone
    \<and> req1 = (if blocking then req\<lparr> b_pAmDone := pAmDone \<rparr> else req)
    \<and> with_tcip fuel cfg tcip st = Ret (t, st1)
    \<and> bounce_if cfg (mrGetDesc cfg reqAddr reqSize \<noteq> None)
        (mrGetDesc cfg (allocBounceBuf cfg reqSize) reqSize \<noteq> None) True reqAddr reqSize st1
        = Ret (myReq, st2)
    \<and> b_op req1 = b_op req \<and> req_payload req1 = req_payload req
    \<and> (b_op req = am_opExecOn \<or> b_op req = am_opExecOnLrg
         \<or> (b_op req = am_opAMO \<and> amo_ofiOp req \<noteq> FI_ATOMIC_READ)
        \<longrightarrow> waitForPutsVisAllNodes fuel cfg (Some t) False st2 = Ret st3)
    \<and> (b_op req = am_opGet \<or> b_op req = am_opPut
        \<longrightarrow> waitForPutsVisOneNode fuel cfg node t st2 = Ret st3)
    \<and> (b_op req = am_opFree \<or> b_op req = am_opNop \<or> b_op req = am_opShutdown
         \<or> (b_op req = am_opAMO \<and> amo_ofiOp req = FI_ATOMIC_READ)
        \<longrightarrow> st3 = st2)
    \<and> trace_grows is_mcm_event st2 st3
    \<and> amRequestCommon_send cfg node req1 reqSize pAmDone t st3 = Ret st4
    \<and> st' = amRequestCommon_finish cfg reqAddr myReq pAmDone tcip t st4
    \<and> (haveDeliveryComplete cfg \<or> \<not> bound (tciTab st2 t)
         \<or> (\<exists>pd. prvData st2 = Some pd \<and> putBitmap pd = None)
        \<longrightarrow> st3 = st2)
    \<and> (\<forall>pd b. \<not> haveDeliveryComplete cfg \<and> bound (tciTab st2 t)
           \<and> prvData st2 = Some pd \<and> putBitmap pd = Some b
           \<and> length (bm_map b) = bitmapNumElems (bm_len b)
         \<longrightarrow>
           ((b_op req = am_opGet \<or> b_op req = am_opPut) \<and> node < bm_len b
            \<longrightarrow> (\<exists>b'. prvData st3 = Some (pd\<lparr> putBitmap := Some b' \<rparr>)
                   \<and> bm_len b' = bm_len b
                   \<and> marked_nodes b' = filter (\<lambda>i. i \<noteq> node) (marked_nodes b)
                   \<and> trace st3 = trace st2
                        @ (if node \<in> set (marked_nodes b)
                           then dummy_get cfg t
                                  (if txCQ (tciTab st2 t) then Ctx_Done else Ctx_NULL) node
                           else [])))
         \<and> ((b_op req = am_opExecOn \<or> b_op req = am_opExecOnLrg
               \<or> (b_op req = am_opAMO \<and> amo_ofiOp req \<noteq> FI_ATOMIC_READ))
              \<and> 1 < chpl_numNodes cfg \<and> ttcip st2 = Some t
            \<longrightarrow> (\<exists>b' es. prvData st3 = Some (pd\<lparr> putBitmap := Some b' \<rparr>)
                   \<and> bm_len b' = bm_len b
                   \<and> marked_nodes b' = []
                   \<and> trace st3 = trace st2 @ es
                   \<and> filter (\<lambda>e. \<not> is_yield e) es
                       = concat (map (dummy_get cfg t
                                        (if txCQ (tciTab st2 t) then Ctx_Done else Ctx_NULL))
                                   (marked_nodes b)))))"
proof -
  let ?req1 = "\<lambda>p. if blocking then req\<lparr> b_pAmDone := p \<rparr> else req"
  from assms obtain pAmDone t st1 myReq st2 st3 st4 where
    d: "amRequestCommon_done cfg blocking = Ret pAmDone"
    and w: "with_tcip fuel cfg tcip st = Ret (t, st1)"
    and b: "bounce_if cfg (mrGetDesc cfg reqAddr reqSize \<noteq> None)
       (mrGetDesc cfg (allocBounceBuf cfg reqSize) reqSize \<noteq> None) True reqAddr reqSize st1
       = Ret (myReq, st2)"
    and m: "amRequestCommon_mcm fuel cfg node (?req1 pAmDone) t st2 = Ret st3"
    and snd: "amRequestCommon_send cfg node (?req1 pAmDone) reqSize pAmDone t st3 = Ret st4"
    and fin: "st' = amRequestCommon_finish cfg reqAddr myReq pAmDone tcip t st4"
    by (rule amRequestCommon_RetE)
  have same: "b_op (?req1 pAmDone) = b_op req" "req_payload (?req1 pAmDone) = req_payload req"
    "amo_ofiOp (?req1 pAmDone) = amo_ofiOp req"
    by (simp_all add: amo_ofiOp_def)
  have m': "(if b_op req = am_opExecOn \<or> b_op req = am_opExecOnLrg
         \<or> (b_op req = am_opAMO \<and> amo_ofiOp req \<noteq> FI_ATOMIC_READ)
      then waitForPutsVisAllNodes fuel cfg (Some t) False st2
      else if b_op req = am_opGet \<or> b_op req = am_opPut
      then waitForPutsVisOneNode fuel cfg node t st2
      else Ret st2) = Ret st3"
    using m unfolding amRequestCommon_mcm_def same .
  have all: "b_op req = am_opExecOn \<or> b_op req = am_opExecOnLrg
         \<or> (b_op req = am_opAMO \<and> amo_ofiOp req \<noteq> FI_ATOMIC_READ)
        \<longrightarrow> waitForPutsVisAllNodes fuel cfg (Some t) False st2 = Ret st3"
    using m' by auto
  have one: "b_op req = am_opGet \<or> b_op req = am_opPut
        \<longrightarrow> waitForPutsVisOneNode fuel cfg node t st2 = Ret st3"
    using m' by auto
  have none: "b_op req = am_opFree \<or> b_op req = am_opNop \<or> b_op req = am_opShutdown
         \<or> (b_op req = am_opAMO \<and> amo_ofiOp req = FI_ATOMIC_READ)
        \<longrightarrow> st3 = st2"
    using m' by auto
  have g: "trace_grows is_mcm_event st2 st3"
  proof (cases "b_op req = am_opExecOn \<or> b_op req = am_opExecOnLrg
         \<or> (b_op req = am_opAMO \<and> amo_ofiOp req \<noteq> FI_ATOMIC_READ)")
    case True
    with m' have "waitForPutsVisAllNodes fuel cfg (Some t) False st2 = Ret st3" by auto
    then show ?thesis by (rule waitForPutsVisAllNodes_grows)
  next
    case False
    note nf = this
    show ?thesis
    proof (cases "b_op req = am_opGet \<or> b_op req = am_opPut")
      case True
      with nf m' have "waitForPutsVisOneNode fuel cfg node t st2 = Ret st3" by auto
      then show ?thesis by (rule waitForPutsVisOneNode_grows)
    next
      case False
      with nf m' have "st3 = st2" by auto
      then show ?thesis by (simp add: trace_grows_refl)
    qed
  qed
  have idle: "haveDeliveryComplete cfg \<or> \<not> bound (tciTab st2 t)
         \<or> (\<exists>pd. prvData st2 = Some pd \<and> putBitmap pd = None)
        \<longrightarrow> st3 = st2"
  proof
    assume a: "haveDeliveryComplete cfg \<or> \<not> bound (tciTab st2 t)
         \<or> (\<exists>pd. prvData st2 = Some pd \<and> putBitmap pd = None)"
    show "st3 = st2"
    proof (cases "b_op req = am_opExecOn \<or> b_op req = am_opExecOnLrg
         \<or> (b_op req = am_opAMO \<and> amo_ofiOp req \<noteq> FI_ATOMIC_READ)")
      case True
      with all have "waitForPutsVisAllNodes fuel cfg (Some t) False st2 = Ret st3" by blast
      then show ?thesis by (rule waitForPutsVis_nothing(2) [OF a])
    next
      case False
      note nf = this
      show ?thesis
      proof (cases "b_op req = am_opGet \<or> b_op req = am_opPut")
        case True
        with one have "waitForPutsVisOneNode fuel cfg node t st2 = Ret st3" by blast
        then show ?thesis by (rule waitForPutsVis_nothing(1) [OF a])
      next
        case False
        with nf m' show "st3 = st2" by auto
      qed
    qed
  qed
  have eff: "\<forall>pd b. \<not> haveDeliveryComplete cfg \<and> bound (tciTab st2 t)
           \<and> prvData st2 = Some pd \<and> putBitmap pd = Some b
           \<and> length (bm_map b) = bitmapNumElems (bm_len b)
         \<longrightarrow>
           ((b_op req = am_opGet \<or> b_op req = am_opPut) \<and> node < bm_len b
            \<longrightarrow> (\<exists>b'. prvData st3 = Some (pd\<lparr> putBitmap := Some b' \<rparr>)
                   \<and> bm_len b' = bm_len b
                   \<and> marked_nodes b' = filter (\<lambda>i. i \<noteq> node) (marked_nodes b)
                   \<and> trace st3 = trace st2
                        @ (if node \<in> set (marked_nodes b)
                           then dummy_get cfg t
                                  (if txCQ (tciTab st2 t) then Ctx_Done else Ctx_NULL) node
                           else [])))
         \<and> ((b_op req = am_opExecOn \<or> b_op req = am_opExecOnLrg
               \<or> (b_op req = am_opAMO \<and> amo_ofiOp req \<noteq> FI_ATOMIC_READ))
              \<and> 1 < chpl_numNodes cfg \<and> ttcip st2 = Some t
            \<longrightarrow> (\<exists>b' es. prvData st3 = Some (pd\<lparr> putBitmap := Some b' \<rparr>)
                   \<and> bm_len b' = bm_len b
                   \<and> marked_nodes b' = []
                   \<and> trace st3 = trace st2 @ es
                   \<and> filter (\<lambda>e. \<not> is_yield e) es
                       = concat (map (dummy_get cfg t
                                        (if txCQ (tciTab st2 t) then Ctx_Done else Ctx_NULL))
                                   (marked_nodes b))))"
  proof (intro allI impI conjI)
    fix pd b
    assume c: "\<not> haveDeliveryComplete cfg \<and> bound (tciTab st2 t)
           \<and> prvData st2 = Some pd \<and> putBitmap pd = Some b
           \<and> length (bm_map b) = bitmapNumElems (bm_len b)"
    {
      assume o: "(b_op req = am_opGet \<or> b_op req = am_opPut) \<and> node < bm_len b"
      with one have r: "waitForPutsVisOneNode fuel cfg node t st2 = Ret st3" by blast
      from c o show "\<exists>b'. prvData st3 = Some (pd\<lparr> putBitmap := Some b' \<rparr>)
                   \<and> bm_len b' = bm_len b
                   \<and> marked_nodes b' = filter (\<lambda>i. i \<noteq> node) (marked_nodes b)
                   \<and> trace st3 = trace st2
                        @ (if node \<in> set (marked_nodes b)
                           then dummy_get cfg t
                                  (if txCQ (tciTab st2 t) then Ctx_Done else Ctx_NULL) node
                           else [])"
        by (intro waitForPutsVisOneNode_events [OF r]) simp_all
    }
    {
      assume o: "(b_op req = am_opExecOn \<or> b_op req = am_opExecOnLrg
               \<or> (b_op req = am_opAMO \<and> amo_ofiOp req \<noteq> FI_ATOMIC_READ))
              \<and> 1 < chpl_numNodes cfg \<and> ttcip st2 = Some t"
      with all have r: "waitForPutsVisAllNodes fuel cfg (Some t) False st2 = Ret st3" by blast
      from c o show "\<exists>b' es. prvData st3 = Some (pd\<lparr> putBitmap := Some b' \<rparr>)
                   \<and> bm_len b' = bm_len b
                   \<and> marked_nodes b' = []
                   \<and> trace st3 = trace st2 @ es
                   \<and> filter (\<lambda>e. \<not> is_yield e) es
                       = concat (map (dummy_get cfg t
                                        (if txCQ (tciTab st2 t) then Ctx_Done else Ctx_NULL))
                                   (marked_nodes b))"
        by (intro waitForPutsVisAllNodes_events [OF r]) simp_all
    }
  qed
  from d refl [of "?req1 pAmDone"] w b same(1,2) all one none g snd fin idle eff show ?thesis
    by (intro exI [of _ pAmDone] exI [of _ "?req1 pAmDone"] exI [of _ t] exI [of _ myReq]
        exI [of _ st1] exI [of _ st2] exI [of _ st3] exI [of _ st4] conjI)
qed

lemma ex_marked_two: "marked_nodes \<lparr> bm_len = 2, bm_map = [3] \<rparr> = [0, 1]"
  by (simp add: marked_nodes_def bitmapTest_bit upt_rec)

lemma ex_dummy_get:
  "dummy_get (ex_cfg\<lparr> cqEvents := (\<lambda>k. 0) \<rparr>) t ctx node = [Fi_read t 4096 1 node 4096 0 ctx, WaitForTxnComplete t ctx]"
  by (simp add: dummy_get_def mrGetKey_def ex_cfg_def)

lemmas ex_am_defs =
  amRequestCommon_def amRequestCommon_done_def amRequestCommon_mcm_def
  amRequestCommon_send_def amRequestCommon_finish_def waitForPutsVisOneNode_def
  waitForPutsVisAllNodes_def mcmReleaseAllNodes_def mcm_release_def mcmReleaseOneNode_def
  ofi_get_ll_def wait_cq_room.simps bitmapNumElems_pos bitmapClear_def bitmapTest_def
  bitmapElemIdx_def bitmapElemBit_def bitmapOff_def bitmapElemWidth_def upt_rec
  ex_cfg_def ex_state_def ex_tci_def ex_prv_def obind_def CHK_TRUE_def CHK_FALSE_def
  NULL_def Let_def emit_def upd_tci_def mrGetDesc_def mrGetKey_def mrGetLocalKey_def
  tciAllocCommon_def tciAlloc_def tciFree_def incr_numTxnsOut_def incr_numTxnsSent_def
  checkTxCmpls_def waitForTxnComplete_def with_tcip_def release_tcip_def bounce_if_def

theorem amRequestCommon_put_visibility_witness:
  "(\<exists>st'. amRequestCommon 2 (ex_cfg\<lparr> cqEvents := (\<lambda>k. 0) \<rparr>) 1 \<lparr> b_op = am_opPut, b_node = 0, b_pAmDone = None, req_payload = Payload_rma 8192 4096 4 \<rparr> 12320 40 True True (Some 0) ((ex_state True True)\<lparr> ttcip := Some 0, prvData := Some (ex_prv\<lparr> putBitmap := Some \<lparr> bm_len = 2, bm_map = [3] \<rparr> \<rparr>) \<rparr>) = Ret st'
      \<and> trace st' = [Fi_read 0 4096 1 1 4096 0 Ctx_Done, WaitForTxnComplete 0 Ctx_Done,
                      Fi_send 0 \<lparr> b_op = am_opPut, b_node = 0, b_pAmDone = Some 12288, req_payload = Payload_rma 8192 4096 4 \<rparr> 40 1, WaitForTxnComplete 0 Ctx_Done, AmWaitForDone 12288]
      \<and> (\<exists>(st3 :: comm_state) b'. prvData st3 = Some (ex_prv\<lparr> putBitmap := Some b' \<rparr>)
             \<and> marked_nodes b' = [0]
             \<and> trace st3 = [Fi_read 0 4096 1 1 4096 0 Ctx_Done,
                             WaitForTxnComplete 0 Ctx_Done]))
   \<and> (\<exists>st'. amRequestCommon 2 (ex_cfg\<lparr> cqEvents := (\<lambda>k. 0) \<rparr>) 1 \<lparr> b_op = am_opExecOn, b_node = 0, b_pAmDone = None, req_payload = Payload_execOn 7 \<rparr> 12320 2 False True (Some 0) ((ex_state True True)\<lparr> ttcip := Some 0, prvData := Some (ex_prv\<lparr> putBitmap := Some \<lparr> bm_len = 2, bm_map = [3] \<rparr> \<rparr>) \<rparr>) = Ret st'
      \<and> trace st' = [Fi_read 0 4096 1 0 4096 0 Ctx_Done, WaitForTxnComplete 0 Ctx_Done,
                      Fi_read 0 4096 1 1 4096 0 Ctx_Done, WaitForTxnComplete 0 Ctx_Done,
                      Fi_inject 0 \<lparr> b_op = am_opExecOn, b_node = 0, b_pAmDone = None, req_payload = Payload_execOn 7 \<rparr> 2 1]
      \<and> (\<exists>(st3 :: comm_state) b' es. prvData st3 = Some (ex_prv\<lparr> putBitmap := Some b' \<rparr>)
             \<and> marked_nodes b' = []
             \<and> trace st3 = es
             \<and> filter (\<lambda>e. \<not> is_yield e) es
                 = [Fi_read 0 4096 1 0 4096 0 Ctx_Done, WaitForTxnComplete 0 Ctx_Done,
                    Fi_read 0 4096 1 1 4096 0 Ctx_Done, WaitForTxnComplete 0 Ctx_Done]))"
proof -
  let ?cfg = "ex_cfg\<lparr> cqEvents := (\<lambda>k. 0) \<rparr>"
  let ?st = "(ex_state True True)\<lparr> ttcip := Some 0, prvData := Some (ex_prv\<lparr> putBitmap := Some \<lparr> bm_len = 2, bm_map = [3] \<rparr> \<rparr>) \<rparr>"
  let ?pd = "ex_prv\<lparr> putBitmap := Some \<lparr> bm_len = 2, bm_map = [3] \<rparr> \<rparr>"
  let ?b = "\<lparr> bm_len = 2, bm_map = [3] \<rparr>"
  have c: "\<not> haveDeliveryComplete ?cfg \<and> bound (tciTab ?st 0)
           \<and> prvData ?st = Some ?pd \<and> putBitmap ?pd = Some ?b
           \<and> length (bm_map ?b) = bitmapNumElems (bm_len ?b)"
    by (simp add: bitmapNumElems_pos ex_cfg_def ex_state_def ex_tci_def ex_prv_def)
  have wt: "with_tcip 2 ?cfg (Some 0) ?st = Ret (t, st1) \<Longrightarrow> t = 0 \<and> st1 = ?st" for t st1
    by (auto simp: with_tcip_def)
  have bn: "bounce_if ?cfg (mrGetDesc ?cfg 12320 n \<noteq> None)
        (mrGetDesc ?cfg (allocBounceBuf ?cfg n) n \<noteq> None) True 12320 n ?st
        = Ret (myReq, st2) \<Longrightarrow> st2 = ?st" for n myReq st2
    by (auto simp: bounce_if_def mrGetDesc_def ex_cfg_def)
  have A: "\<exists>st'. amRequestCommon 2 ?cfg 1 \<lparr> b_op = am_opPut, b_node = 0, b_pAmDone = None, req_payload = Payload_rma 8192 4096 4 \<rparr> 12320 40 True True (Some 0) ?st = Ret st'
      \<and> trace st' = [Fi_read 0 4096 1 1 4096 0 Ctx_Done, WaitForTxnComplete 0 Ctx_Done,
                      Fi_send 0 \<lparr> b_op = am_opPut, b_node = 0, b_pAmDone = Some 12288, req_payload = Payload_rma 8192 4096 4 \<rparr> 40 1, WaitForTxnComplete 0 Ctx_Done, AmWaitForDone 12288]
      \<and> (\<exists>(st3 :: comm_state) b'. prvData st3 = Some (ex_prv\<lparr> putBitmap := Some b' \<rparr>)
             \<and> marked_nodes b' = [0]
             \<and> trace st3 = [Fi_read 0 4096 1 1 4096 0 Ctx_Done,
                             WaitForTxnComplete 0 Ctx_Done])"
  proof -
    obtain st' where r: "amRequestCommon 2 ?cfg 1 \<lparr> b_op = am_opPut, b_node = 0, b_pAmDone = None, req_payload = Payload_rma 8192 4096 4 \<rparr> 12320 40 True True (Some 0) ?st = Ret st'"
      and tr: "trace st' = [Fi_read 0 4096 1 1 4096 0 Ctx_Done, WaitForTxnComplete 0 Ctx_Done,
                      Fi_send 0 \<lparr> b_op = am_opPut, b_node = 0, b_pAmDone = Some 12288, req_payload = Payload_rma 8192 4096 4 \<rparr> 40 1, WaitForTxnComplete 0 Ctx_Done, AmWaitForDone 12288]"
      by (simp add: ex_am_defs)
    from amRequestCommon_put_visibility [OF r]
    have "\<exists>(st3 :: comm_state) b'. prvData st3 = Some (ex_prv\<lparr> putBitmap := Some b' \<rparr>)
             \<and> marked_nodes b' = [0]
             \<and> trace st3 = [Fi_read 0 4096 1 1 4096 0 Ctx_Done,
                             WaitForTxnComplete 0 Ctx_Done]"
    proof (elim exE conjE)
      fix t myReq and st1 st2 st3 :: comm_state
      assume w: "with_tcip 2 ?cfg (Some 0) ?st = Ret (t, st1)"
        and b: "bounce_if ?cfg (mrGetDesc ?cfg 12320 40 \<noteq> None)
                  (mrGetDesc ?cfg (allocBounceBuf ?cfg 40) 40 \<noteq> None) True 12320 40 st1
                  = Ret (myReq, st2)"
        and eff: "\<forall>pd b. \<not> haveDeliveryComplete ?cfg \<and> bound (tciTab st2 t)
           \<and> prvData st2 = Some pd \<and> putBitmap pd = Some b
           \<and> length (bm_map b) = bitmapNumElems (bm_len b)
         \<longrightarrow>
           ((b_op \<lparr> b_op = am_opPut, b_node = 0, b_pAmDone = None, req_payload = Payload_rma 8192 4096 4 \<rparr> = am_opGet \<or> b_op \<lparr> b_op = am_opPut, b_node = 0, b_pAmDone = None, req_payload = Payload_rma 8192 4096 4 \<rparr> = am_opPut) \<and> 1 < bm_len b
            \<longrightarrow> (\<exists>b'. prvData st3 = Some (pd\<lparr> putBitmap := Some b' \<rparr>)
                   \<and> bm_len b' = bm_len b
                   \<and> marked_nodes b' = filter (\<lambda>i. i \<noteq> 1) (marked_nodes b)
                   \<and> trace st3 = trace st2
                        @ (if 1 \<in> set (marked_nodes b)
                           then dummy_get ?cfg t
                                  (if txCQ (tciTab st2 t) then Ctx_Done else Ctx_NULL) 1
                           else [])))
         \<and> ((b_op \<lparr> b_op = am_opPut, b_node = 0, b_pAmDone = None, req_payload = Payload_rma 8192 4096 4 \<rparr> = am_opExecOn \<or> b_op \<lparr> b_op = am_opPut, b_node = 0, b_pAmDone = None, req_payload = Payload_rma 8192 4096 4 \<rparr> = am_opExecOnLrg
               \<or> (b_op \<lparr> b_op = am_opPut, b_node = 0, b_pAmDone = None, req_payload = Payload_rma 8192 4096 4 \<rparr> = am_opAMO \<and> amo_ofiOp \<lparr> b_op = am_opPut, b_node = 0, b_pAmDone = None, req_payload = Payload_rma 8192 4096 4 \<rparr> \<noteq> FI_ATOMIC_READ))
              \<and> 1 < chpl_numNodes ?cfg \<and> ttcip st2 = Some t
            \<longrightarrow> (\<exists>b' es. prvData st3 = Some (pd\<lparr> putBitmap := Some b' \<rparr>)
                   \<and> bm_len b' = bm_len b
                   \<and> marked_nodes b' = []
                   \<and> trace st3 = trace st2 @ es
                   \<and> filter (\<lambda>e. \<not> is_yield e) es
                       = concat (map (dummy_get ?cfg t
                                        (if txCQ (tciTab st2 t) then Ctx_Done else Ctx_NULL))
                                   (marked_nodes b))))"
      from wt [OF w] have t: "t = 0" and st1: "st1 = ?st" by simp_all
      from bn [OF b [unfolded st1]] have st2: "st2 = ?st" .
      have pre: "\<not> haveDeliveryComplete ?cfg \<and> bound (tciTab st2 t)
           \<and> prvData st2 = Some ?pd \<and> putBitmap ?pd = Some ?b
           \<and> length (bm_map ?b) = bitmapNumElems (bm_len ?b)"
        unfolding t st2 by (rule c)
      have op: "(b_op \<lparr> b_op = am_opPut, b_node = 0, b_pAmDone = None, req_payload = Payload_rma 8192 4096 4 \<rparr> = am_opGet \<or> b_op \<lparr> b_op = am_opPut, b_node = 0, b_pAmDone = None, req_payload = Payload_rma 8192 4096 4 \<rparr> = am_opPut) \<and> 1 < bm_len ?b"
        by simp
      from eff [THEN spec, THEN spec, THEN mp, OF pre, THEN conjunct1, THEN mp, OF op]
      obtain b' where p: "prvData st3 = Some (?pd\<lparr> putBitmap := Some b' \<rparr>)"
        and m: "marked_nodes b' = filter (\<lambda>i. i \<noteq> 1) (marked_nodes ?b)"
        and t3: "trace st3 = trace st2
                        @ (if 1 \<in> set (marked_nodes ?b)
                           then dummy_get ?cfg t
                                  (if txCQ (tciTab st2 t) then Ctx_Done else Ctx_NULL) 1
                           else [])"
        by (elim exE conjE) (rule that)
      from p have p': "prvData st3 = Some (ex_prv\<lparr> putBitmap := Some b' \<rparr>)" by simp
      from m have m': "marked_nodes b' = [0]" by (simp add: ex_marked_two)
      from t3 have t3': "trace st3 = [Fi_read 0 4096 1 1 4096 0 Ctx_Done,
                             WaitForTxnComplete 0 Ctx_Done]"
        unfolding t st2 ex_marked_two ex_dummy_get by (simp add: ex_state_def ex_tci_def)
      from p' m' t3' show ?thesis by (intro exI [of _ st3] exI [of _ b'] conjI)
    qed
    with r tr show ?thesis by - (rule exI [of _ st'], (rule conjI, assumption)+)
  qed
  have B: "\<exists>st'. amRequestCommon 2 ?cfg 1 \<lparr> b_op = am_opExecOn, b_node = 0, b_pAmDone = None, req_payload = Payload_execOn 7 \<rparr> 12320 2 False True (Some 0) ?st = Ret st'
      \<and> trace st' = [Fi_read 0 4096 1 0 4096 0 Ctx_Done, WaitForTxnComplete 0 Ctx_Done,
                      Fi_read 0 4096 1 1 4096 0 Ctx_Done, WaitForTxnComplete 0 Ctx_Done,
                      Fi_inject 0 \<lparr> b_op = am_opExecOn, b_node = 0, b_pAmDone = None, req_payload = Payload_execOn 7 \<rparr> 2 1]
      \<and> (\<exists>(st3 :: comm_state) b' es. prvData st3 = Some (ex_prv\<lparr> putBitmap := Some b' \<rparr>)
             \<and> marked_nodes b' = []
             \<and> trace st3 = es
             \<and> filter (\<lambda>e. \<not> is_yield e) es
                 = [Fi_read 0 4096 1 0 4096 0 Ctx_Done, WaitForTxnComplete 0 Ctx_Done,
                    Fi_read 0 4096 1 1 4096 0 Ctx_Done, WaitForTxnComplete 0 Ctx_Done])"
  proof -
    obtain st' where r: "amRequestCommon 2 ?cfg 1 \<lparr> b_op = am_opExecOn, b_node = 0, b_pAmDone = None, req_payload = Payload_execOn 7 \<rparr> 12320 2 False True (Some 0) ?st = Ret st'"
      and tr: "trace st' = [Fi_read 0 4096 1 0 4096 0 Ctx_Done, WaitForTxnComplete 0 Ctx_Done,
                      Fi_read 0 4096 1 1 4096 0 Ctx_Done, WaitForTxnComplete 0 Ctx_Done,
                      Fi_inject 0 \<lparr> b_op = am_opExecOn, b_node = 0, b_pAmDone = None, req_payload = Payload_execOn 7 \<rparr> 2 1]"
      by (simp add: ex_am_defs)
    from amRequestCommon_put_visibility [OF r]
    have "\<exists>(st3 :: comm_state) b' es. prvData st3 = Some (ex_prv\<lparr> putBitmap := Some b' \<rparr>)
             \<and> marked_nodes b' = []
             \<and> trace st3 = es
             \<and> filter (\<lambda>e. \<not> is_yield e) es
                 = [Fi_read 0 4096 1 0 4096 0 Ctx_Done, WaitForTxnComplete 0 Ctx_Done,
                    Fi_read 0 4096 1 1 4096 0 Ctx_Done, WaitForTxnComplete 0 Ctx_Done]"
    proof (elim exE conjE)
      fix t myReq and st1 st2 st3 :: comm_state
      assume w: "with_tcip 2 ?cfg (Some 0) ?st = Ret (t, st1)"
        and b: "bounce_if ?cfg (mrGetDesc ?cfg 12320 2 \<noteq> None)
                  (mrGetDesc ?cfg (allocBounceBuf ?cfg 2) 2 \<noteq> None) True 12320 2 st1
                  = Ret (myReq, st2)"
        and eff: "\<forall>pd b. \<not> haveDeliveryComplete ?cfg \<and> bound (tciTab st2 t)
           \<and> prvData st2 = Some pd \<and> putBitmap pd = Some b
           \<and> length (bm_map b) = bitmapNumElems (bm_len b)
         \<longrightarrow>
           ((b_op \<lparr> b_op = am_opExecOn, b_node = 0, b_pAmDone = None, req_payload = Payload_execOn 7 \<rparr> = am_opGet \<or> b_op \<lparr> b_op = am_opExecOn, b_node = 0, b_pAmDone = None, req_payload = Payload_execOn 7 \<rparr> = am_opPut) \<and> 1 < bm_len b
            \<longrightarrow> (\<exists>b'. prvData st3 = Some (pd\<lparr> putBitmap := Some b' \<rparr>)
                   \<and> bm_len b' = bm_len b
                   \<and> marked_nodes b' = filter (\<lambda>i. i \<noteq> 1) (marked_nodes b)
                   \<and> trace st3 = trace st2
                        @ (if 1 \<in> set (marked_nodes b)
                           then dummy_get ?cfg t
                                  (if txCQ (tciTab st2 t) then Ctx_Done else Ctx_NULL) 1
                           else [])))
         \<and> ((b_op \<lparr> b_op = am_opExecOn, b_node = 0, b_pAmDone = None, req_payload = Payload_execOn 7 \<rparr> = am_opExecOn \<or> b_op \<lparr> b_op = am_opExecOn, b_node = 0, b_pAmDone = None, req_payload = Payload_execOn 7 \<rparr> = am_opExecOnLrg
               \<or> (b_op \<lparr> b_op = am_opExecOn, b_node = 0, b_pAmDone = None, req_payload = Payload_execOn 7 \<rparr> = am_opAMO \<and> amo_ofiOp \<lparr> b_op = am_opExecOn, b_node = 0, b_pAmDone = None, req_payload = Payload_execOn 7 \<rparr> \<noteq> FI_ATOMIC_READ))
              \<and> 1 < chpl_numNodes ?cfg \<and> ttcip st2 = Some t
            \<longrightarrow> (\<exists>b' es. prvData st3 = Some (pd\<lparr> putBitmap := Some b' \<rparr>)
                   \<and> bm_len b' = bm_len b
                   \<and> marked_nodes b' = []
                   \<and> trace st3 = trace st2 @ es
                   \<and> filter (\<lambda>e. \<not> is_yield e) es
                       = concat (map (dummy_get ?cfg t
                                        (if txCQ (tciTab st2 t) then Ctx_Done else Ctx_NULL))
                                   (marked_nodes b))))"
      from wt [OF w] have t: "t = 0" and st1: "st1 = ?st" by simp_all
      from bn [OF b [unfolded st1]] have st2: "st2 = ?st" .
      have pre: "\<not> haveDeliveryComplete ?cfg \<and> bound (tciTab st2 t)
           \<and> prvData st2 = Some ?pd \<and> putBitmap ?pd = Some ?b
           \<and> length (bm_map ?b) = bitmapNumElems (bm_len ?b)"
        unfolding t st2 by (rule c)
      have op: "(b_op \<lparr> b_op = am_opExecOn, b_node = 0, b_pAmDone = None, req_payload = Payload_execOn 7 \<rparr> = am_opExecOn \<or> b_op \<lparr> b_op = am_opExecOn, b_node = 0, b_pAmDone = None, req_payload = Payload_execOn 7 \<rparr> = am_opExecOnLrg
               \<or> (b_op \<lparr> b_op = am_opExecOn, b_node = 0, b_pAmDone = None, req_payload = Payload_execOn 7 \<rparr> = am_opAMO \<and> amo_ofiOp \<lparr> b_op = am_opExecOn, b_node = 0, b_pAmDone = None, req_payload = Payload_execOn 7 \<rparr> \<noteq> FI_ATOMIC_READ))
              \<and> 1 < chpl_numNodes ?cfg \<and> ttcip st2 = Some t"
        unfolding t st2 by (simp add: ex_cfg_def)
      from eff [THEN spec, THEN spec, THEN mp, OF pre, THEN conjunct2, THEN mp, OF op]
      obtain b' es where p: "prvData st3 = Some (?pd\<lparr> putBitmap := Some b' \<rparr>)"
        and m: "marked_nodes b' = []"
        and t3: "trace st3 = trace st2 @ es"
        and f: "filter (\<lambda>e. \<not> is_yield e) es
                       = concat (map (dummy_get ?cfg t
                                        (if txCQ (tciTab st2 t) then Ctx_Done else Ctx_NULL))
                                   (marked_nodes ?b))"
        by (elim exE conjE) (rule that)
      from p have p': "prvData st3 = Some (ex_prv\<lparr> putBitmap := Some b' \<rparr>)" by simp
      from t3 have t3': "trace st3 = es"
        unfolding st2 by (simp add: ex_state_def)
      from f have f': "filter (\<lambda>e. \<not> is_yield e) es
                 = [Fi_read 0 4096 1 0 4096 0 Ctx_Done, WaitForTxnComplete 0 Ctx_Done,
                    Fi_read 0 4096 1 1 4096 0 Ctx_Done, WaitForTxnComplete 0 Ctx_Done]"
        unfolding t st2 ex_marked_two ex_dummy_get by (simp add: ex_state_def ex_tci_def)
      from p' m t3' f' show ?thesis
        by (intro exI [of _ st3] exI [of _ b'] exI [of _ es] conjI)
    qed
    with r tr show ?thesis by - (rule exI [of _ st'], (rule conjI, assumption)+)
  qed
  from A B show ?thesis by (rule conjI)
qed

section \<open>The fabric operations of a split transfer\<close>

lemma ofi_put_direct_bound:
  assumes "txCQ (tciTab st t)" and "bound (tciTab st t)" and "prvData st \<noteq> None"
    and "mrGetKey cfg node (orderDummyMap cfg node) 1 \<noteq> None"
    and "mrGetDesc cfg (orderDummy cfg) 1 \<noteq> None"
  shows "\<exists>es st'. ofi_put_direct fuel cfg myAddr node sz off key t st = Ret st'
     \<and> ttcip st' = ttcip st \<and> bound (tciTab st' t) \<and> txCQ (tciTab st' t)
     \<and> prvData st' \<noteq> None \<and> trace st' = trace st @ es
     \<and> List.map_filter put_data es = [(myAddr, sz, node, off, key)]"
proof -
  from assms(3) obtain pd where pd: "prvData st = Some pd" by auto
  from assms(4) obtain dk dr where dk: "mrGetKey cfg node (orderDummyMap cfg node) 1 = Some (dk, dr)"
    by auto
  from assms(5) obtain dd where dd: "mrGetDesc cfg (orderDummy cfg) 1 = Some dd" by auto
  consider (dc) "haveDeliveryComplete cfg"
    | (wr) "\<not> haveDeliveryComplete cfg" "sz > inject_size cfg"
    | (inj) "\<not> haveDeliveryComplete cfg" "sz \<le> inject_size cfg"
    by arith
  then show ?thesis
  proof cases
    case dc
    let ?es = "[Fi_write t myAddr sz node off key Ctx_Done, WaitForTxnComplete t Ctx_Done]"
    let ?s1 = "emit [WaitForTxnComplete t Ctx_Done]
                 (incr_numTxnsSent t (incr_numTxnsOut t
                    (emit [Fi_write t myAddr sz node off key Ctx_Done] st)))"
    have q: "txCQ (tciTab ?s1 t)"
      using assms(1) by (simp add: incr_numTxnsSent_def incr_numTxnsOut_def upd_tci_def emit_def)
    have run: "ofi_put_direct fuel cfg myAddr node sz off key t st = checkTxCmpls cfg t ?s1"
      using dc assms(1) by (simp add: ofi_put_direct_def Let_def obind_def waitForTxnComplete_def)
    show ?thesis
      unfolding run checkTxCmpls_txCQ [OF q]
      using assms(1,2) pd
      by (intro exI [of _ ?es])
         (simp add: incr_numTxnsSent_def incr_numTxnsOut_def upd_tci_def emit_def
           put_data_def List.map_filter_def)
  next
    case wr
    let ?es = "[Fi_write t myAddr sz node off key Ctx_NULL,
                Fi_read t (orderDummy cfg) 1 node dr dk Ctx_Done,
                WaitForTxnComplete t Ctx_Done]"
    let ?s0 = "incr_numTxnsSent t (incr_numTxnsOut t
                (emit [Fi_write t myAddr sz node off key Ctx_NULL] st))"
    let ?s1 = "emit [WaitForTxnComplete t Ctx_Done]
                 (incr_numTxnsSent t (incr_numTxnsOut t
                    (emit [Fi_read t (orderDummy cfg) 1 node dr dk Ctx_Done] ?s0)))"
    have g: "ofi_get_ll fuel cfg (orderDummy cfg) node (orderDummyMap cfg node) 1 Ctx_Done
               (Some t) ?s0
             = Ret (incr_numTxnsSent t (incr_numTxnsOut t
                      (emit [Fi_read t (orderDummy cfg) 1 node dr dk Ctx_Done] ?s0)))"
      using dk dd by (simp add: ofi_get_ll_def with_tcip_def release_tcip_def obind_def)
    have q: "txCQ (tciTab ?s1 t)"
      using assms(1) by (simp add: incr_numTxnsSent_def incr_numTxnsOut_def upd_tci_def emit_def)
    have run: "ofi_put_direct fuel cfg myAddr node sz off key t st = checkTxCmpls cfg t ?s1"
      using wr assms(1) g
      by (simp add: ofi_put_direct_def Let_def obind_def waitForTxnComplete_def)
    show ?thesis
      unfolding run checkTxCmpls_txCQ [OF q]
      using assms(1,2) pd
      by (intro exI [of _ ?es])
         (simp add: incr_numTxnsSent_def incr_numTxnsOut_def upd_tci_def emit_def
           put_data_def List.map_filter_def)
  next
    case inj
    let ?es = "[Fi_inject_write t myAddr sz node off key]"
    note run = ofi_put_direct_inject [OF inj(1) assms(1,2) inj(2) pd]
    show ?thesis
      unfolding run
      using assms(1,2)
      by (intro exI [of _ ?es])
         (simp add: incr_numTxnsSent_def upd_tci_def emit_def put_data_def
           List.map_filter_def)
  qed
qed


lemma tciAlloc_own_bound:
  "ttcip st = Some t \<Longrightarrow> bound (tciTab st t) \<Longrightarrow> tciAlloc fuel cfg st = Ret (t, st)"
  by (simp add: tciAlloc_def tciAllocCommon_def)

lemma tciFree_bound: "bound (tciTab st t) \<Longrightarrow> tciFree t st = st"
  by (simp add: tciFree_def)

text \<open>
  A PUT that is not split, from registered memory to an address with a key, by a thread
  with a bound context of its own: it returns, the thread is as before, and the one
  write among its events carries the address, the size, the node, and the offset and the
  key of the remote address.
\<close>

lemma ofi_put_unsplit_events:
  assumes "sz \<le> max_msg_size cfg"
    and "mrGetKey cfg node raddr sz = Some (key, off)"
    and "mrGetDesc cfg addr sz \<noteq> None"
    and "ttcip st = Some t \<and> bound (tciTab st t) \<and> txCQ (tciTab st t) \<and> prvData st \<noteq> None"
    and "mrGetKey cfg node (orderDummyMap cfg node) 1 \<noteq> None"
    and "mrGetDesc cfg (orderDummy cfg) 1 \<noteq> None"
  shows "\<exists>st' es. ofi_put (Suc fuel) cfg addr node raddr sz st = Ret st'
     \<and> (ttcip st' = Some t \<and> bound (tciTab st' t) \<and> txCQ (tciTab st' t) \<and> prvData st' \<noteq> None)
     \<and> trace st' = trace st @ es
     \<and> List.map_filter put_data es = [(addr, sz, node, off, key)]"
proof -
  from assms(4) have inv: "ttcip st = Some t" "bound (tciTab st t)" "txCQ (tciTab st t)"
    "prvData st \<noteq> None"
    by simp_all
  from ofi_put_direct_bound [OF inv(3,2,4) assms(5,6), of fuel addr sz off key]
  obtain es st' where
    d: "ofi_put_direct fuel cfg addr node sz off key t st = Ret st'"
    and k: "ttcip st' = ttcip st" "bound (tciTab st' t)" "txCQ (tciTab st' t)" "prvData st' \<noteq> None"
    and tr: "trace st' = trace st @ es"
    and dat: "List.map_filter put_data es = [(addr, sz, node, off, key)]"
    by blast
  have "ofi_put (Suc fuel) cfg addr node raddr sz st = Ret st'"
    using assms(1,2,3) inv(1,2) d k(2)
    by (simp add: ofi_put_body_def bounce_if_def tciAlloc_own_bound tciFree_bound obind_def)
  with k inv(1) tr dat show ?thesis by (intro exI [of _ st'] exI [of _ es]) simp
qed

lemma ofi_get_unsplit_events:
  assumes "sz \<le> max_msg_size cfg"
    and "mrGetKey cfg node raddr sz = Some (key, off)"
    and "mrGetDesc cfg addr sz \<noteq> None"
    and "ttcip st = Some t \<and> bound (tciTab st t) \<and> txCQ (tciTab st t) \<and> prvData st \<noteq> None"
  shows "\<exists>st' es. ofi_get (Suc fuel) cfg addr node raddr sz st = Ret st'
     \<and> (ttcip st' = Some t \<and> bound (tciTab st' t) \<and> txCQ (tciTab st' t) \<and> prvData st' \<noteq> None)
     \<and> trace st' = trace st @ es
     \<and> List.map_filter get_data es = [(addr, sz, node, off, key)]"
proof -
  from assms(4) obtain pd where inv: "ttcip st = Some t" "bound (tciTab st t)"
    "txCQ (tciTab st t)" "prvData st = Some pd"
    by auto
  let ?es = "[Fi_read t addr sz node off key Ctx_Done, WaitForTxnComplete t Ctx_Done]"
  let ?s0 = "incr_numTxnsSent t (incr_numTxnsOut t
               (emit [Fi_read t addr sz node off key Ctx_Done] st))"
  let ?s1 = "if \<not> haveDeliveryComplete cfg
             then (case putBitmap pd of
                     None \<Rightarrow> ?s0
                   | Some b \<Rightarrow> ?s0\<lparr> prvData := Some (pd\<lparr> putBitmap := Some (bitmapClear b node) \<rparr>) \<rparr>)
             else ?s0"
  let ?s2 = "emit [WaitForTxnComplete t Ctx_Done] ?s1"
  have q: "txCQ (tciTab ?s2 t)" and bd: "bound (tciTab ?s2 t)"
    using inv(2,3)
    by (simp_all add: incr_numTxnsSent_def incr_numTxnsOut_def upd_tci_def emit_def
        split: option.splits)
  have d: "ofi_get_direct cfg addr node sz off key t st = checkTxCmpls cfg t ?s2"
    using inv
    by (simp add: ofi_get_direct_def Let_def obind_def waitForTxnComplete_def
        incr_numTxnsSent_def incr_numTxnsOut_def upd_tci_def emit_def split: option.splits)
  let ?st' = "upd_tci t (\<lambda>e. e\<lparr> numTxnsOut := numTxnsOut e - cqEvents cfg (clock ?s2) \<rparr>)
                (?s2\<lparr> clock := clock ?s2 + 1 \<rparr>)"
  have bd': "bound (tciTab ?st' t)" using bd by (simp add: upd_tci_def)
  have "ofi_get (Suc fuel) cfg addr node raddr sz st = Ret ?st'"
    using assms(1,2,3) inv(1,2) bd'
    by (simp add: ofi_get_body_def bounce_if_def tciAlloc_own_bound tciFree_bound d
        checkTxCmpls_txCQ [OF q] del: upd_tci_def)
  moreover have "ttcip ?st' = Some t \<and> bound (tciTab ?st' t) \<and> txCQ (tciTab ?st' t)
                   \<and> prvData ?st' \<noteq> None"
    using inv
    by (simp add: incr_numTxnsSent_def incr_numTxnsOut_def upd_tci_def emit_def
        split: option.splits)
  moreover have "trace ?st' = trace st @ ?es"
    by (simp add: incr_numTxnsSent_def incr_numTxnsOut_def upd_tci_def emit_def
        split: option.splits)
  moreover have "List.map_filter get_data ?es = [(addr, sz, node, off, key)]"
    by (simp add: get_data_def List.map_filter_def)
  ultimately show ?thesis
    by - (rule exI [of _ ?st'], rule exI [of _ ?es], (rule conjI, assumption)+)
qed

lemma fold_obind_events:
  assumes step: "\<And>k st. k < n \<Longrightarrow> Inv st \<Longrightarrow>
              \<exists>st' es. F k st = Ret st' \<and> Inv st' \<and> trace st' = trace st @ es
                 \<and> List.map_filter P es = [D k]"
    and "Inv st"
  shows "\<exists>st' es. fold (\<lambda>k r. obind r (F k)) [0 ..< n] (Ret st) = Ret st' \<and> Inv st'
     \<and> trace st' = trace st @ es \<and> List.map_filter P es = map D [0 ..< n]"
  using step
proof (induction n)
  case 0
  from assms(2) show ?case by (intro exI [of _ st] exI [of _ "[]"]) (simp add: List.map_filter_def)
next
  case (Suc n)
  have "\<exists>st' es. fold (\<lambda>k r. obind r (F k)) [0 ..< n] (Ret st) = Ret st' \<and> Inv st'
     \<and> trace st' = trace st @ es \<and> List.map_filter P es = map D [0 ..< n]"
    by (rule Suc.IH) (rule Suc.prems, simp_all)
  then obtain st1 es1 where
    f: "fold (\<lambda>k r. obind r (F k)) [0 ..< n] (Ret st) = Ret st1" and i1: "Inv st1"
    and t1: "trace st1 = trace st @ es1" and d1: "List.map_filter P es1 = map D [0 ..< n]"
    by blast
  from Suc.prems [OF lessI i1] obtain st2 es2 where
    s: "F n st1 = Ret st2" and i2: "Inv st2" and t2: "trace st2 = trace st1 @ es2"
    and d2: "List.map_filter P es2 = [D n]"
    by blast
  have "fold (\<lambda>k r. obind r (F k)) [0 ..< Suc n] (Ret st) = Ret st2"
    by (simp add: f s)
  moreover have "trace st2 = trace st @ (es1 @ es2)" using t1 t2 by simp
  moreover have "List.map_filter P (es1 @ es2) = map D [0 ..< Suc n]"
    using d1 d2 by (simp add: List.map_filter_def)
  ultimately show ?case using i2 by blast
qed


lemma fold_put_effect:
  "fold (put_effect va src) es dst
     = fold (\<lambda>(a, n, node, off, key). logical_transfer src a (va key off) n)
         (List.map_filter put_data es) dst"
proof (induction es arbitrary: dst)
  case Nil
  show ?case by (simp add: List.map_filter_def)
next
  case (Cons e es)
  show ?case
  proof (cases "put_data e")
    case None
    then have "put_effect va src e dst = dst" by (simp add: put_effect_def)
    with None show ?thesis by (simp add: List.map_filter_simps Cons.IH)
  next
    case (Some x)
    then have "put_effect va src e dst
                 = (\<lambda>(a, n, node, off, key). logical_transfer src a (va key off) n) x dst"
      by (simp add: put_effect_def split: prod.splits)
    with Some show ?thesis by (simp add: List.map_filter_simps Cons.IH)
  qed
qed

lemma fold_get_effect:
  "fold (get_effect va src) es dst
     = fold (\<lambda>(a, n, node, off, key). logical_transfer src (va key off) a n)
         (List.map_filter get_data es) dst"
proof (induction es arbitrary: dst)
  case Nil
  show ?case by (simp add: List.map_filter_def)
next
  case (Cons e es)
  show ?case
  proof (cases "get_data e")
    case None
    then have "get_effect va src e dst = dst" by (simp add: get_effect_def)
    with None show ?thesis by (simp add: List.map_filter_simps Cons.IH)
  next
    case (Some x)
    then have "get_effect va src e dst
                 = (\<lambda>(a, n, node, off, key). logical_transfer src (va key off) a n) x dst"
      by (simp add: get_effect_def split: prod.splits)
    with Some show ?thesis by (simp add: List.map_filter_simps Cons.IH)
  qed
qed

lemma fold_chunks:
  assumes "0 < (m :: nat)" and "n = (sz + m - 1) div m" and "k \<le> n"
  shows "fold (\<lambda>j. logical_transfer src (a + j * m) (b + j * m) (min m (sz - j * m))) [0 ..< k] dst
         = logical_transfer src a b (min sz (k * m)) dst"
  using assms(3)
proof (induction k)
  case 0
  show ?case by (simp add: logical_transfer_0)
next
  case (Suc k)
  then have kn: "k < n" by simp
  from chunk_count_bounds(2) [OF assms(1,2) kn] have lt: "k * m < sz" .
  have e: "k * m + min m (sz - k * m) = min sz (Suc k * m)"
    using lt by (simp add: min_def) arith
  from Suc lt have ih: "fold (\<lambda>j. logical_transfer src (a + j * m) (b + j * m) (min m (sz - j * m)))
                      [0 ..< k] dst
                    = logical_transfer src a b (k * m) dst"
    by (simp add: min_def)
  show ?case
    by (simp only: upt_Suc_append [OF le0] fold_append o_apply fold.simps id_apply ih
        logical_transfer_append e)
qed

lemma chunks_put_effect:
  assumes "0 < (m :: nat)" and "n = (sz + m - 1) div m"
    and "\<And>k. k < n \<Longrightarrow> va (key k) (off k) = raddr + k * m"
  shows "fold (\<lambda>(a, n, node, off, key). logical_transfer src a (va key off) n)
           (map (\<lambda>k. (addr + k * m, min m (sz - k * m), node, off k, key k)) [0 ..< n]) dst
         = logical_transfer src addr raddr (min sz (n * m)) dst"
proof -
  have "fold (\<lambda>(a, n, node, off, key). logical_transfer src a (va key off) n)
           (map (\<lambda>k. (addr + k * m, min m (sz - k * m), node, off k, key k)) [0 ..< n]) dst
        = fold (\<lambda>k. logical_transfer src (addr + k * m) (va (key k) (off k)) (min m (sz - k * m)))
            [0 ..< n] dst"
    by (simp add: fold_map o_def)
  also have "\<dots> = fold (\<lambda>k. logical_transfer src (addr + k * m) (raddr + k * m)
                               (min m (sz - k * m))) [0 ..< n] dst"
    by (rule fold_cong [OF refl refl]) (simp add: assms(3))
  also have "\<dots> = logical_transfer src addr raddr (min sz (n * m)) dst"
    by (rule fold_chunks [OF assms(1,2) order_refl])
  finally show ?thesis .
qed

lemma chunks_get_effect:
  assumes "0 < (m :: nat)" and "n = (sz + m - 1) div m"
    and "\<And>k. k < n \<Longrightarrow> va (key k) (off k) = raddr + k * m"
  shows "fold (\<lambda>(a, n, node, off, key). logical_transfer src (va key off) a n)
           (map (\<lambda>k. (addr + k * m, min m (sz - k * m), node, off k, key k)) [0 ..< n]) dst
         = logical_transfer src raddr addr (min sz (n * m)) dst"
proof -
  have "fold (\<lambda>(a, n, node, off, key). logical_transfer src (va key off) a n)
           (map (\<lambda>k. (addr + k * m, min m (sz - k * m), node, off k, key k)) [0 ..< n]) dst
        = fold (\<lambda>k. logical_transfer src (va (key k) (off k)) (addr + k * m) (min m (sz - k * m)))
            [0 ..< n] dst"
    by (simp add: fold_map o_def)
  also have "\<dots> = fold (\<lambda>k. logical_transfer src (raddr + k * m) (addr + k * m)
                               (min m (sz - k * m))) [0 ..< n] dst"
    by (rule fold_cong [OF refl refl]) (simp add: assms(3))
  also have "\<dots> = logical_transfer src raddr addr (min sz (n * m)) dst"
    by (rule fold_chunks [OF assms(1,2) order_refl])
  finally show ?thesis .
qed





end
